theory Spec2Isabelle
  imports Main "HOL-Library.Multiset" "HOL-Library.AList"
begin

section \<open>Data model\<close>

text \<open>
  The values \<^verbatim>\<open>ddg.py\<close> imports from simuvex and from \<^verbatim>\<open>code_location.py\<close>.

  Modelled from the spec: the four \<^verbatim>\<open>SimVariable\<close> classes (simuvex is not part of the
  sources). A register variable is identified by offset and size, a memory variable by
  address and size, a temporary by its id; the constant variable is a singleton marker.
\<close>

datatype variable =
    SimRegisterVariable int int
  | SimMemoryVariable int int
  | SimTemporaryVariable int
  | SimConstantVariable

text \<open>
  Modelled from the spec: \<^verbatim>\<open>CodeLocation(simrun_addr, stmt_idx, sim_procedure=None,
  ins_addr=None)\<close> (\<^verbatim>\<open>code_location.py\<close> is not part of the sources): an immutable value
  with structural equality. It is a plain object: it is not iterable.
\<close>

datatype code_location =
  CodeLocation (simrun_addr: "int option") (stmt_idx: "int option")
    (sim_procedure: "string option") (ins_addr: "int option")

text \<open>\<^verbatim>\<open>class ProgramVariable\<close>: equality and hash over \<^verbatim>\<open>(variable, location)\<close>.\<close>

datatype program_variable =
  ProgramVariable (variable: variable) (location: code_location)

text \<open>The exceptions the modelled code can raise.\<close>

datatype error =
    AngrDDGError
  | NetworkXError
  | TypeError
  | KeyError
  | AttributeError
  | UnboundLocalError

text \<open>
  Edge labels are the keyword arguments the source passes to \<^verbatim>\<open>add_edge\<close>: the keys
  \<^verbatim>\<open>type\<close>, \<^verbatim>\<open>data\<close>, \<^verbatim>\<open>count\<close> and \<^verbatim>\<open>subtype\<close>, with strings, integers, variables and
  tuples of strings as values. A label dictionary is a map.
\<close>

datatype label_key = Type | Data | Count | Subtype

datatype label_value =
    StrV string
  | IntV int
  | VarV variable
  | TupleV "string list"

type_synonym labels = "label_key \<rightharpoonup> label_value"

section \<open>Directed graphs\<close>

text \<open>
  The operations of \<^verbatim>\<open>networkx.DiGraph\<close> (networkx 1.x, a library outside the repository)
  that the source calls. A graph is its node list (in iteration order, without
  duplicates) and the attribute dictionary of every edge: \<^verbatim>\<open>G[u][v]\<close> is \<open>adj G (u, v)\<close>.
  \<^verbatim>\<open>add_edge\<close> adds missing end points and updates the attribute dictionary of an edge
  that is already there; \<^verbatim>\<open>remove_edge\<close> and \<^verbatim>\<open>remove_node\<close> raise \<^verbatim>\<open>NetworkXError\<close> on
  a missing edge or node.
\<close>

record 'n digraph =
  nodes :: "'n list"
  adj :: "'n \<times> 'n \<rightharpoonup> labels"

definition DiGraph :: "'n digraph" where
  "DiGraph = \<lparr>nodes = [], adj = Map.empty\<rparr>"

definition wf_digraph :: "'n digraph \<Rightarrow> bool" where
  "wf_digraph G \<longleftrightarrow>
     distinct (nodes G) \<and>
     (\<forall>u v. adj G (u, v) \<noteq> None \<longrightarrow> u \<in> set (nodes G) \<and> v \<in> set (nodes G))"

definition has_edge :: "'n digraph \<Rightarrow> 'n \<Rightarrow> 'n \<Rightarrow> bool" where
  "has_edge G u v \<longleftrightarrow> u \<in> set (nodes G) \<and> adj G (u, v) \<noteq> None"

definition add_node :: "'n digraph \<Rightarrow> 'n \<Rightarrow> 'n digraph" where
  "add_node G n = (if n \<in> set (nodes G) then G else G\<lparr>nodes := nodes G @ [n]\<rparr>)"

definition add_edge :: "'n digraph \<Rightarrow> 'n \<Rightarrow> 'n \<Rightarrow> labels \<Rightarrow> 'n digraph" where
  "add_edge G u v attr =
     (let datadict = (case adj G (u, v) of None \<Rightarrow> Map.empty | Some d \<Rightarrow> d)
      in (add_node (add_node G u) v)\<lparr>adj := (adj G)((u, v) \<mapsto> datadict ++ attr)\<rparr>)"

definition remove_edge :: "'n digraph \<Rightarrow> 'n \<Rightarrow> 'n \<Rightarrow> error + 'n digraph" where
  "remove_edge G u v =
     (if adj G (u, v) = None then Inl NetworkXError
      else Inr (G\<lparr>adj := (adj G)((u, v) := None)\<rparr>))"

definition remove_node :: "'n digraph \<Rightarrow> 'n \<Rightarrow> error + 'n digraph" where
  "remove_node G n =
     (if n \<notin> set (nodes G) then Inl NetworkXError
      else Inr \<lparr>nodes = removeAll n (nodes G),
                adj = (\<lambda>(u, v). if u = n \<or> v = n then None else adj G (u, v))\<rparr>)"

definition in_edges :: "'n digraph \<Rightarrow> 'n \<Rightarrow> ('n \<times> 'n \<times> labels) list" where
  "in_edges G n =
     List.map_filter (\<lambda>u. map_option (\<lambda>d. (u, n, d)) (adj G (u, n))) (nodes G)"

definition out_edges :: "'n digraph \<Rightarrow> 'n \<Rightarrow> ('n \<times> 'n \<times> labels) list" where
  "out_edges G n =
     List.map_filter (\<lambda>v. map_option (\<lambda>d. (n, v, d)) (adj G (n, v))) (nodes G)"

definition edges_iter :: "'n digraph \<Rightarrow> ('n \<times> 'n \<times> labels) list" where
  "edges_iter G = concat (map (out_edges G) (nodes G))"

section \<open>The analysis object and its graph builders\<close>

text \<open>
  The mutable part of a \<^verbatim>\<open>DDG\<close> instance: \<^verbatim>\<open>_stmt_graph\<close>, \<^verbatim>\<open>_data_graph\<close>, the cache
  \<^verbatim>\<open>_simplified_data_graph\<close>, the per-function graphs
  \<^verbatim>\<open>_function_data_dependencies\<close> (a function is named by a string), and the store of the Python \<^verbatim>\<open>set\<close> objects that the
  live-definition dictionaries refer to. A set object is a reference (an index of
  \<open>heap\<close>); its content is the list of its elements, without duplicates. The store is
  explicit because the dictionaries of different CFG nodes can hold the same object.
\<close>

record ddg =
  stmt_graph :: "code_location digraph"
  data_graph :: "program_variable digraph"
  simplified_data_graph :: "program_variable digraph option"
  function_data_dependencies :: "(string \<rightharpoonup> code_location digraph) option"
  heap :: "code_location list list"

definition data_graph_add_node :: "ddg \<Rightarrow> program_variable \<Rightarrow> ddg" where
  "data_graph_add_node self node =
     self\<lparr>data_graph := add_node (data_graph self) node, simplified_data_graph := None\<rparr>"

definition data_graph_add_edge ::
  "ddg \<Rightarrow> program_variable \<Rightarrow> program_variable \<Rightarrow> labels \<Rightarrow> ddg" where
  "data_graph_add_edge self src dst edge_labels =
     (if has_edge (data_graph self) src dst then self
      else self\<lparr>data_graph := add_edge (data_graph self) src dst edge_labels,
                simplified_data_graph := None\<rparr>)"

definition stmt_graph_add_edge ::
  "ddg \<Rightarrow> code_location \<Rightarrow> code_location \<Rightarrow> labels \<Rightarrow> ddg" where
  "stmt_graph_add_edge self src dst edge_labels =
     (if has_edge (stmt_graph self) src dst then self
      else self\<lparr>stmt_graph := add_edge (stmt_graph self) src dst edge_labels\<rparr>)"

text \<open>
  A raised exception is the value \<open>Inl e\<close>: \<open>ebind\<close> runs the rest of a function body
  only after a part that has not raised, \<open>foldM\<close> is a \<^verbatim>\<open>for\<close> loop whose body can raise.

  \<^verbatim>\<open>_stmt_graph_annotate_edges\<close>: every listed edge that is still in the graph gets each
  new label appended to the tuple under its key; \<^verbatim>\<open>data[k] + (v,)\<close> raises \<^verbatim>\<open>TypeError\<close>
  when the value under the key is not a tuple.
\<close>

definition ebind :: "error + 'a \<Rightarrow> ('a \<Rightarrow> error + 'b) \<Rightarrow> error + 'b" where
  "ebind m f = (case m of Inl e \<Rightarrow> Inl e | Inr x \<Rightarrow> f x)"

fun foldM :: "('a \<Rightarrow> 's \<Rightarrow> error + 's) \<Rightarrow> 'a list \<Rightarrow> 's \<Rightarrow> error + 's" where
  "foldM f [] s = Inr s"
| "foldM f (x # xs) s = (case f x s of Inl e \<Rightarrow> Inl e | Inr s' \<Rightarrow> foldM f xs s')"

definition annotate_label :: "label_key \<times> string \<Rightarrow> labels \<Rightarrow> error + labels" where
  "annotate_label kv data =
     (case data (fst kv) of
        None \<Rightarrow> Inr (data(fst kv \<mapsto> TupleV [snd kv]))
      | Some (TupleV t) \<Rightarrow> Inr (data(fst kv \<mapsto> TupleV (t @ [snd kv])))
      | Some _ \<Rightarrow> Inl TypeError)"

definition annotate_edge ::
  "(label_key \<times> string) list \<Rightarrow> code_location \<times> code_location \<Rightarrow> ddg \<Rightarrow> error + ddg" where
  "annotate_edge new_labels e self =
     (let graph = stmt_graph self in
      if fst e \<notin> set (nodes graph) then Inr self
      else case adj graph e of
        None \<Rightarrow> Inr self
      | Some data \<Rightarrow>
          (case foldM annotate_label new_labels data of
             Inl err \<Rightarrow> Inl err
           | Inr data' \<Rightarrow> Inr (self\<lparr>stmt_graph := graph\<lparr>adj := (adj graph)(e \<mapsto> data')\<rparr>\<rparr>)))"

definition stmt_graph_annotate_edges ::
  "ddg \<Rightarrow> (code_location \<times> code_location) list \<Rightarrow> (label_key \<times> string) list \<Rightarrow> error + ddg" where
  "stmt_graph_annotate_edges self edges_to_annotate new_labels =
     foldM (annotate_edge new_labels) edges_to_annotate self"

section \<open>Register sizes\<close>

text \<open>
  The architecture object \<^verbatim>\<open>self.project.arch\<close> (archinfo, outside the repository) is a
  parameter: its dictionaries \<^verbatim>\<open>register_names\<close> (offset to name) and \<^verbatim>\<open>registers\<close>
  (name to offset and size), and what reading its attribute \<^verbatim>\<open>register_name\<close> gives:
  \<open>None\<close> when the object has no such attribute, so that the read raises
  \<^verbatim>\<open>AttributeError\<close>.
\<close>

record arch =
  register_names :: "int \<rightharpoonup> string"
  registers :: "string \<rightharpoonup> int \<times> int"
  register_name :: "string option"

definition get_register_size :: "arch \<Rightarrow> int \<Rightarrow> error + int" where
  "get_register_size a reg_offset =
     (if reg_offset \<in> dom (register_names a) then
        (case register_name a of
           None \<Rightarrow> Inl AttributeError
         | Some reg_name \<Rightarrow>
             (case registers a reg_name of
                None \<Rightarrow> Inl KeyError
              | Some reg \<Rightarrow> Inr (snd reg)))
      else Inr 1)"


section \<open>The action trace\<close>

text \<open>
  What the source reads of a final state of a CFG node (simuvex, outside the
  repository), taken as input data. A \<^verbatim>\<open>SimActionObject\<close> (\<^verbatim>\<open>a.addr\<close>, \<^verbatim>\<open>a.data\<close>) gives the
  size of its expression, its register and temporary dependencies, and what
  \<^verbatim>\<open>state.se.any_int(a.addr.ast)\<close> returns: \<open>None\<close> when the solver raises
  \<^verbatim>\<open>SimSolverModeError\<close> or \<^verbatim>\<open>SimUnsatError\<close>. Dependency sets are lists in iteration order.
\<close>

datatype action_type = Mem | Reg | Tmp | Exit | OtherAction

datatype action_kind = Read | Write

record sim_action_object =
  any_int :: "int option"
  ast_size :: int
  reg_deps :: "int list"
  tmp_deps :: "int list"

record sim_action =
  a_type :: action_type
  a_action :: action_kind
  a_stmt_idx :: "int option"
  a_bbl_addr :: "int option"
  a_ins_addr :: "int option"
  a_sim_procedure :: "string option"
  a_actual_addrs :: "int list option"
  a_addr :: sim_action_object
  a_data :: sim_action_object
  a_offset :: int
  a_tmp :: int
  a_reg_deps :: "int list"
  a_tmp_deps :: "int list"

datatype jumpkind = Ijk_Boring | Ijk_Call | Ijk_Ret | Ijk_FakeRet

text \<open>
  A final state: \<^verbatim>\<open>state.scratch.jumpkind\<close>, the instruction pointer (\<open>None\<close> when
  \<^verbatim>\<open>state.ip.symbolic\<close>, else the value of \<^verbatim>\<open>state.se.any_int(state.ip)\<close>) and
  \<^verbatim>\<open>state.log.actions\<close>.
\<close>

record sim_state =
  jumpkind :: jumpkind
  ip :: "int option"
  actions :: "sim_action list"

text \<open>
  The CFG (\<^verbatim>\<open>self._cfg\<close>): the nodes are numbered; \<open>cfg_edges\<close> lists the edges of
  \<^verbatim>\<open>cfg.graph\<close> with their \<^verbatim>\<open>jumpkind\<close> attribute; \<open>cfg_functions\<close> lists the functions of the
  function manager with their blocks.
\<close>

record cfg =
  cfg_nodes :: "nat list"
  cfg_edges :: "(nat \<times> nat \<times> jumpkind) list"
  addr :: "nat \<Rightarrow> int"
  final_states :: "nat \<Rightarrow> sim_state list"
  cfg_functions :: "(string \<times> int list) list"

text \<open>The fields of the analysis that never change after \<^verbatim>\<open>__init__\<close>.\<close>

record config =
  the_cfg :: cfg
  keep_data :: bool
  call_depth :: "int option"
  project_arch :: arch

section \<open>Reaching definitions\<close>

text \<open>
  A live-definition dictionary maps a variable to a set object of the store. It is an
  association list, since the scheduler iterates over it.

  \<^verbatim>\<open>_def_lookup\<close>: one label dictionary for every location of the reaching set.
\<close>

type_synonym live_definitions = "(variable \<times> nat) list"

definition variable_type :: "variable \<Rightarrow> string option" where
  "variable_type var =
     (case var of
        SimMemoryVariable _ _ \<Rightarrow> Some ''mem''
      | SimRegisterVariable _ _ \<Rightarrow> Some ''reg''
      | _ \<Rightarrow> None)"

definition def_lookup_step ::
  "bool \<Rightarrow> variable \<Rightarrow> code_location \<Rightarrow> (code_location \<times> labels) list
     \<Rightarrow> error + (code_location \<times> labels) list" where
  "def_lookup_step keep var code_loc prevdefs =
     (case variable_type var of
        None \<Rightarrow> Inl AngrDDGError
      | Some ty \<Rightarrow>
          if keep then
            Inr (AList.update code_loc [Type \<mapsto> StrV ty, Data \<mapsto> VarV var] prevdefs)
          else
            (case map_of prevdefs code_loc of
               None \<Rightarrow>
                 Inr (AList.update code_loc [Type \<mapsto> StrV ty, Count \<mapsto> IntV 0] prevdefs)
             | Some d \<Rightarrow>
                 (case d Count of
                    None \<Rightarrow> Inl KeyError
                  | Some (IntV c) \<Rightarrow>
                      Inr (AList.update code_loc
                             [Type \<mapsto> StrV ty, Count \<mapsto> IntV (c + 1)] prevdefs)
                  | Some _ \<Rightarrow> Inl TypeError)))"

definition def_lookup ::
  "config \<Rightarrow> ddg \<Rightarrow> live_definitions \<Rightarrow> variable \<Rightarrow> error + (code_location \<times> labels) list" where
  "def_lookup conf self defs var =
     (case map_of defs var of
        None \<Rightarrow> Inr []
      | Some code_loc_set \<Rightarrow>
          foldM (def_lookup_step (keep_data conf) var) (heap self ! code_loc_set) [])"

text \<open>
  What a dictionary holds for a variable: the content of the set object
  \<^verbatim>\<open>live_defs[variable]\<close>, or \<open>None\<close> for a variable that is not a key.
\<close>

definition reaching_set ::
  "ddg \<Rightarrow> live_definitions \<Rightarrow> variable \<Rightarrow> code_location list option" where
  "reaching_set self defs var = map_option (\<lambda>r. heap self ! r) (map_of defs var)"

text \<open>The labels that the lookup gives an edge from a definition of a register.\<close>

definition reg_edge_labels :: "config \<Rightarrow> variable \<Rightarrow> labels" where
  "reg_edge_labels conf var =
     (if keep_data conf then [Type \<mapsto> StrV ''reg'', Data \<mapsto> VarV var]
      else [Type \<mapsto> StrV ''reg'', Count \<mapsto> IntV 0])"

text \<open>\<^verbatim>\<open>_kill\<close>: \<^verbatim>\<open>live_defs[variable] = {code_loc}\<close>, a new set object.\<close>

definition kill ::
  "ddg \<Rightarrow> live_definitions \<Rightarrow> variable \<Rightarrow> code_location \<Rightarrow> ddg \<times> live_definitions" where
  "kill self defs var code_loc =
     (self\<lparr>heap := heap self @ [[code_loc]]\<rparr>, AList.update var (length (heap self)) defs)"

section \<open>The tracker\<close>

text \<open>
  The local variables of \<^verbatim>\<open>_track\<close>, with the analysis object they work on. \<open>pv\<close> is
  \<open>None\<close> as long as the Python local \<^verbatim>\<open>pv\<close> is unbound. The two \<^verbatim>\<open>defaultdict(list)\<close> are
  maps: reading a missing key gives the empty list and creates the key.
\<close>

record tracker =
  this :: ddg
  live_defs :: live_definitions
  temp_defs :: "int \<rightharpoonup> code_location"
  temp_variables :: "int \<rightharpoonup> program_variable"
  temps_to_edges :: "int \<rightharpoonup> (code_location \<times> code_location) list"
  regs_to_edges :: "int \<rightharpoonup> (code_location \<times> code_location) list"
  last_statement_id :: "int option"
  data_read :: "program_variable list"
  pv :: "program_variable option"

definition dd_lookup :: "(int \<rightharpoonup> 'e list) \<Rightarrow> int \<Rightarrow> 'e list" where
  "dd_lookup m k = (case m k of None \<Rightarrow> [] | Some es \<Rightarrow> es)"

definition dd_touch :: "(int \<rightharpoonup> 'e list) \<Rightarrow> int \<Rightarrow> (int \<rightharpoonup> 'e list)" where
  "dd_touch m k = (case m k of None \<Rightarrow> m(k \<mapsto> []) | Some es \<Rightarrow> m)"

definition dd_append :: "(int \<rightharpoonup> 'e list) \<Rightarrow> int \<Rightarrow> 'e \<Rightarrow> (int \<rightharpoonup> 'e list)" where
  "dd_append m k e = m(k \<mapsto> dd_lookup m k @ [e])"

definition current_code_location :: "sim_action \<Rightarrow> code_location" where
  "current_code_location a =
     (case a_bbl_addr a of
        None \<Rightarrow> CodeLocation None None (a_sim_procedure a) None
      | Some b \<Rightarrow> CodeLocation (Some b) (a_stmt_idx a) None (a_ins_addr a))"

text \<open>
  The loops over \<^verbatim>\<open>a.addr.reg_deps\<close> and \<^verbatim>\<open>a.data.reg_deps\<close> of a memory action. The inner
  loop \<^verbatim>\<open>for loc, _ in prev_defs\<close> iterates over the keys of the dictionary that
  \<^verbatim>\<open>_def_lookup\<close> returned and unpacks each key, a \<^verbatim>\<open>CodeLocation\<close>, into two names: it
  raises \<^verbatim>\<open>TypeError\<close> at the first key, and its body never runs.
\<close>

definition reg_dep_step :: "config \<Rightarrow> string \<Rightarrow> int \<Rightarrow> tracker \<Rightarrow> error + tracker" where
  "reg_dep_step conf subtype reg_offset st =
     (let es = dd_lookup (regs_to_edges st) reg_offset;
          st1 = st\<lparr>regs_to_edges := dd_touch (regs_to_edges st) reg_offset\<rparr>
      in ebind (stmt_graph_annotate_edges (this st1) es [(Subtype, subtype)]) (\<lambda>self1.
         ebind (get_register_size (project_arch conf) reg_offset) (\<lambda>reg_size.
         ebind (def_lookup conf self1 (live_defs st1) (SimRegisterVariable reg_offset reg_size))
           (\<lambda>prev_defs.
              if prev_defs \<noteq> [] then Inl TypeError else Inr (st1\<lparr>this := self1\<rparr>)))))"

definition tmp_dep_step ::
  "string \<Rightarrow> program_variable \<Rightarrow> int \<Rightarrow> tracker \<Rightarrow> error + tracker" where
  "tmp_dep_step subtype p tmp st =
     (let es = dd_lookup (temps_to_edges st) tmp;
          st1 = st\<lparr>temps_to_edges := dd_touch (temps_to_edges st) tmp\<rparr>
      in ebind (stmt_graph_annotate_edges (this st1) es [(Subtype, subtype)]) (\<lambda>self1.
           Inr (case temp_variables st1 tmp of
                  None \<Rightarrow> st1\<lparr>this := self1\<rparr>
                | Some tv \<Rightarrow>
                    st1\<lparr>this := data_graph_add_edge self1 tv p [Type \<mapsto> StrV subtype]\<rparr>)))"

definition add_def_edges ::
  "code_location \<Rightarrow> (code_location \<times> labels) list \<Rightarrow> ddg \<Rightarrow> ddg" where
  "add_def_edges cur prevdefs self =
     fold (\<lambda>(prev_code_loc, l) s. stmt_graph_add_edge s prev_code_loc cur l) prevdefs self"

definition mem_addr_list :: "sim_action \<Rightarrow> int list" where
  "mem_addr_list a =
     (case a_actual_addrs a of
        None \<Rightarrow> (case any_int (a_addr a) of Some n \<Rightarrow> [n] | None \<Rightarrow> [0x60000000])
      | Some addrs \<Rightarrow> remdups addrs)"

text \<open>
  The body of the loop over the addresses of a memory action. \<open>mem_access\<close> is its
  beginning: the edges from the reaching definitions for a read, the kill for a write.
\<close>

definition mem_access ::
  "config \<Rightarrow> sim_action \<Rightarrow> code_location \<Rightarrow> variable \<Rightarrow> tracker \<Rightarrow> error + tracker" where
  "mem_access conf a cur var st0 =
     ebind
       (if a_action a = Read then
          ebind (def_lookup conf (this st0) (live_defs st0) var) (\<lambda>prevdefs.
            Inr (st0\<lparr>this := add_def_edges cur prevdefs (this st0),
                     data_read := data_read st0 @ [ProgramVariable var cur]\<rparr>))
        else Inr st0) (\<lambda>st1.
       Inr (if a_action a = Write then
              (let k = kill (this st1) (live_defs st1) var cur
               in st1\<lparr>this := fst k, live_defs := snd k\<rparr>)
            else st1))"

definition track_mem_addr ::
  "config \<Rightarrow> sim_action \<Rightarrow> code_location \<Rightarrow> int \<Rightarrow> tracker \<Rightarrow> error + tracker" where
  "track_mem_addr conf a cur ad st =
     (let var = SimMemoryVariable ad (ast_size (a_data a));
          p = ProgramVariable var cur
      in ebind (mem_access conf a cur var (st\<lparr>pv := Some p\<rparr>)) (\<lambda>st2.
         ebind (foldM (reg_dep_step conf ''mem_addr'') (reg_deps (a_addr a)) st2) (\<lambda>st3.
         ebind (foldM (tmp_dep_step ''mem_addr'' p) (tmp_deps (a_addr a)) st3) (\<lambda>st4.
         ebind (foldM (reg_dep_step conf ''mem_data'') (reg_deps (a_data a)) st4) (\<lambda>st5.
         foldM (tmp_dep_step ''mem_data'' p) (tmp_deps (a_data a)) st5)))))"

definition track_mem :: "config \<Rightarrow> sim_action \<Rightarrow> code_location \<Rightarrow> tracker \<Rightarrow> error + tracker" where
  "track_mem conf a cur st = foldM (track_mem_addr conf a cur) (mem_addr_list a) st"

definition reg_read_step ::
  "variable \<Rightarrow> int \<Rightarrow> code_location \<Rightarrow> code_location \<times> labels \<Rightarrow> tracker \<Rightarrow> tracker" where
  "reg_read_step var reg_offset cur d st =
     st\<lparr>this := stmt_graph_add_edge (this st) (fst d) cur (snd d),
        regs_to_edges := dd_append (regs_to_edges st) reg_offset (fst d, cur),
        data_read := data_read st @ [ProgramVariable var (fst d)]\<rparr>"

definition reg_tmp_dep_step :: "int \<Rightarrow> tracker \<Rightarrow> error + tracker" where
  "reg_tmp_dep_step tmp st =
     (case temp_variables st tmp of
        None \<Rightarrow> Inr st
      | Some tv \<Rightarrow>
          (case pv st of
             None \<Rightarrow> Inl UnboundLocalError
           | Some p \<Rightarrow> Inr (st\<lparr>this := data_graph_add_edge (this st) tv p Map.empty\<rparr>)))"

definition track_reg_read ::
  "config \<Rightarrow> variable \<Rightarrow> int \<Rightarrow> code_location \<Rightarrow> tracker \<Rightarrow> error + tracker" where
  "track_reg_read conf var reg_offset cur st =
     ebind (def_lookup conf (this st) (live_defs st) var) (\<lambda>prevdefs.
       let st1 = fold (reg_read_step var reg_offset cur) prevdefs st
       in Inr (if prevdefs = [] then
                 st1\<lparr>data_read := data_read st1 @ [ProgramVariable var cur]\<rparr>
               else st1))"

definition track_reg_write ::
  "sim_action \<Rightarrow> variable \<Rightarrow> int \<Rightarrow> code_location \<Rightarrow> tracker \<Rightarrow> tracker" where
  "track_reg_write a var reg_offset cur st =
     (let k = kill (this st) (live_defs st) var cur;
          p = ProgramVariable var cur;
          st1 = st\<lparr>this := data_graph_add_node (fst k) p,
                   live_defs := snd k,
                   regs_to_edges := (regs_to_edges st)(reg_offset := None),
                   pv := Some p\<rparr>
      in if a_reg_deps a = [] \<and> a_tmp_deps a = [] then
           st1\<lparr>this := data_graph_add_edge (this st1)
                         (ProgramVariable SimConstantVariable cur) p Map.empty\<rparr>
         else st1)"

definition track_reg :: "config \<Rightarrow> sim_action \<Rightarrow> code_location \<Rightarrow> tracker \<Rightarrow> error + tracker" where
  "track_reg conf a cur st =
     (let reg_offset = a_offset a;
          var = SimRegisterVariable reg_offset (ast_size (a_data a))
      in ebind
           (if a_action a = Read then track_reg_read conf var reg_offset cur st
            else Inr (track_reg_write a var reg_offset cur st))
           (foldM reg_tmp_dep_step (a_tmp_deps a)))"

definition tmp_write_dep_step :: "program_variable \<Rightarrow> int \<Rightarrow> tracker \<Rightarrow> tracker" where
  "tmp_write_dep_step p tmp_dep st =
     (case temp_variables st tmp_dep of
        None \<Rightarrow> st
      | Some tv \<Rightarrow> st\<lparr>this := data_graph_add_edge (this st) tv p Map.empty\<rparr>)"

definition track_tmp_read ::
  "int \<Rightarrow> code_location \<Rightarrow> tracker \<Rightarrow> error + tracker" where
  "track_tmp_read tmp cur st0 =
     (case temp_defs st0 tmp of
        None \<Rightarrow> Inl KeyError
      | Some prev_code_loc \<Rightarrow>
          Inr (st0\<lparr>this := stmt_graph_add_edge (this st0) prev_code_loc cur
                             [Type \<mapsto> StrV ''tmp'', Data \<mapsto> IntV tmp],
                   temps_to_edges := dd_append (temps_to_edges st0) tmp (prev_code_loc, cur)\<rparr>))"

definition track_tmp_write ::
  "sim_action \<Rightarrow> int \<Rightarrow> program_variable \<Rightarrow> code_location \<Rightarrow> tracker \<Rightarrow> tracker" where
  "track_tmp_write a tmp p cur st0 =
     (let st1 = st0\<lparr>temp_defs := (temp_defs st0)(tmp \<mapsto> cur),
                    temp_variables := (temp_variables st0)(tmp \<mapsto> p),
                    temps_to_edges := (temps_to_edges st0)(tmp := None)\<rparr>;
          st2 = fold (tmp_write_dep_step p) (a_tmp_deps a) st1
      in fold (\<lambda>d s. s\<lparr>this := data_graph_add_edge (this s) d p Map.empty\<rparr>)
           (data_read st2) st2)"

definition track_tmp :: "sim_action \<Rightarrow> code_location \<Rightarrow> tracker \<Rightarrow> error + tracker" where
  "track_tmp a cur st =
     (let tmp = a_tmp a;
          p = ProgramVariable (SimTemporaryVariable tmp) cur;
          st0 = st\<lparr>pv := Some p\<rparr>
      in if a_action a = Read then track_tmp_read tmp cur st0
         else Inr (track_tmp_write a tmp p cur st0))"

definition exit_step :: "code_location \<Rightarrow> int \<Rightarrow> tracker \<Rightarrow> error + tracker" where
  "exit_step cur tmp st =
     (case temp_defs st tmp of
        None \<Rightarrow> Inl KeyError
      | Some prev_code_loc \<Rightarrow>
          Inr (st\<lparr>this := stmt_graph_add_edge (this st) prev_code_loc cur
                            [Type \<mapsto> StrV ''exit'', Data \<mapsto> StrV ''tmp''],
                  temps_to_edges := dd_append (temps_to_edges st) tmp (prev_code_loc, cur)\<rparr>))"

definition track_exit :: "sim_action \<Rightarrow> code_location \<Rightarrow> tracker \<Rightarrow> error + tracker" where
  "track_exit a cur st = foldM (exit_step cur) (a_tmp_deps a) st"

definition new_statement :: "sim_action \<Rightarrow> tracker \<Rightarrow> tracker" where
  "new_statement a st =
     (if last_statement_id st = None \<or> last_statement_id st \<noteq> a_stmt_idx a then
        st\<lparr>data_read := [], last_statement_id := a_stmt_idx a\<rparr>
      else st)"

definition track_action :: "config \<Rightarrow> sim_action \<Rightarrow> tracker \<Rightarrow> error + tracker" where
  "track_action conf a st =
     (let st0 = new_statement a st;
          cur = current_code_location a
      in case a_type a of
           Mem \<Rightarrow> track_mem conf a cur st0
         | Reg \<Rightarrow> track_reg conf a cur st0
         | Tmp \<Rightarrow> track_tmp a cur st0
         | Exit \<Rightarrow> track_exit a cur st0
         | OtherAction \<Rightarrow> Inr st0)"

definition init_tracker :: "ddg \<Rightarrow> live_definitions \<Rightarrow> tracker" where
  "init_tracker self defs =
     \<lparr>this = self, live_defs = defs, temp_defs = Map.empty, temp_variables = Map.empty,
      temps_to_edges = Map.empty, regs_to_edges = Map.empty, last_statement_id = None,
      data_read = [], pv = None\<rparr>"

text \<open>
  \<open>killed_at var cur st\<close>: in the tracker state, the only reaching definition of the
  variable is \<open>cur\<close> (its set object is in the store and holds \<open>cur\<close> alone).
\<close>

definition killed_at :: "variable \<Rightarrow> code_location \<Rightarrow> tracker \<Rightarrow> bool" where
  "killed_at var cur st \<longleftrightarrow>
     (\<exists>r. map_of (live_defs st) var = Some r \<and> r < length (heap (this st)) \<and>
          heap (this st) ! r = [cur])"

text \<open>
  \<^verbatim>\<open>_track\<close>: \<^verbatim>\<open>live_defs.copy()\<close> copies the dictionary, not the set objects it holds: the
  copy refers to the same references of the store.
\<close>

definition track ::
  "config \<Rightarrow> ddg \<Rightarrow> sim_state \<Rightarrow> live_definitions \<Rightarrow> error + ddg \<times> live_definitions" where
  "track conf self state defs =
     ebind (foldM (track_action conf) (actions state) (init_tracker self defs))
       (\<lambda>st. Inr (this st, live_defs st))"


section \<open>The simplifier\<close>

text \<open>
  \<^verbatim>\<open>_simplify_data_graph\<close>. \<^verbatim>\<open>networkx.DiGraph(data_graph)\<close> copies the graph, so the
  argument is not changed. The temporaries are removed in the order of \<^verbatim>\<open>all_nodes\<close>,
  which is the iteration order of the node dictionary; \<open>simplify_in_order\<close> takes that
  order as an argument. \<^verbatim>\<open>in_edges\<close> and \<^verbatim>\<open>out_edges\<close> are lists taken before any edge is
  removed. The test \<^verbatim>\<open>pred is not tmp_node and suc is not tmp_node\<close> compares graph nodes;
  a node is in a graph once, so identity is equality here.
\<close>

definition is_temporary :: "program_variable \<Rightarrow> bool" where
  "is_temporary n = (case variable n of SimTemporaryVariable _ \<Rightarrow> True | _ \<Rightarrow> False)"

definition splice ::
  "'n \<Rightarrow> 'n \<times> 'n \<times> labels \<Rightarrow> 'n \<times> 'n \<times> labels \<Rightarrow> 'n digraph \<Rightarrow> 'n digraph" where
  "splice tmp_node e_in e_out graph =
     (let pred = fst e_in; data_in = snd (snd e_in);
          suc = fst (snd e_out); data_out = snd (snd e_out)
      in if pred \<noteq> tmp_node \<and> suc \<noteq> tmp_node then
           add_edge graph pred suc (data_in ++ data_out)
         else graph)"

definition remove_tmp_node :: "'n \<Rightarrow> 'n digraph \<Rightarrow> error + 'n digraph" where
  "remove_tmp_node tmp_node graph =
     (let ins = in_edges graph tmp_node;
          outs = out_edges graph tmp_node
      in ebind (foldM (\<lambda>e g. remove_edge g (fst e) tmp_node) ins graph) (\<lambda>g1.
         ebind (foldM (\<lambda>e g. remove_edge g tmp_node (fst (snd e))) outs g1) (\<lambda>g2.
         remove_node (fold (\<lambda>e_in g. fold (splice tmp_node e_in) outs g) ins g2) tmp_node)))"

definition simplify_in_order ::
  "program_variable list \<Rightarrow> program_variable digraph \<Rightarrow> error + program_variable digraph" where
  "simplify_in_order all_nodes graph = foldM remove_tmp_node all_nodes graph"

definition simplify_data_graph ::
  "program_variable digraph \<Rightarrow> error + program_variable digraph" where
  "simplify_data_graph G = simplify_in_order (filter is_temporary (nodes G)) G"

section \<open>Descriptions of the simplifier\<close>

text \<open>
  What the removal of one node amounts to, written as a graph directly: the node and its
  edges are gone, and every pair of an in-edge \<open>(p, T)\<close> and an out-edge \<open>(T, s)\<close> has the
  edge \<open>(p, s)\<close>, whose labels are those that \<open>(p, s)\<close> had before, overlaid by those of
  the in-edge, overlaid by those of the out-edge.
\<close>

definition spliced :: "'n \<Rightarrow> 'n digraph \<Rightarrow> 'n digraph" where
  "spliced T G =
     \<lparr>nodes = removeAll T (nodes G),
      adj = (\<lambda>(p, s).
        if p = T \<or> s = T then None
        else (case (adj G (p, T), adj G (T, s)) of
                (Some din, Some dout) \<Rightarrow>
                  Some ((case adj G (p, s) of None \<Rightarrow> Map.empty | Some d \<Rightarrow> d) ++ (din ++ dout))
              | _ \<Rightarrow> adj G (p, s)))\<rparr>"

text \<open>
  The lists that \<^verbatim>\<open>in_edges\<close> and \<^verbatim>\<open>out_edges\<close> enumerate, as neighbours with labels; the
  labels an edge has before a splice (none when the edge is new).
\<close>

definition labelled :: "('n \<Rightarrow> labels option) \<Rightarrow> 'n list \<Rightarrow> ('n \<times> labels) list" where
  "labelled h xs = List.map_filter (\<lambda>u. map_option (Pair u) (h u)) xs"

definition old_labels :: "'n digraph \<Rightarrow> 'n \<times> 'n \<Rightarrow> labels" where
  "old_labels G k = (case adj G k of None \<Rightarrow> Map.empty | Some d \<Rightarrow> d)"

text \<open>
  The outline of a graph: its nodes and its edges without their labels; and the removal
  of a node on outlines.
\<close>

definition outline :: "'n digraph \<Rightarrow> 'n set \<times> ('n \<times> 'n) set" where
  "outline G = (set (nodes G), dom (adj G))"

definition remove_outline :: "'n \<Rightarrow> 'n set \<times> ('n \<times> 'n) set \<Rightarrow> error + 'n set \<times> ('n \<times> 'n) set" where
  "remove_outline T a =
     (if T \<in> fst a \<and> (T, T) \<notin> snd a then
        Inr (fst a - {T},
             {(p, s). p \<noteq> T \<and> s \<noteq> T \<and> ((p, s) \<in> snd a \<or> (p, T) \<in> snd a \<and> (T, s) \<in> snd a)})
      else Inl NetworkXError)"

section \<open>The function projector\<close>

text \<open>
  \<^verbatim>\<open>_build_function_dependency_graphs\<close> and \<^verbatim>\<open>function_dependency_graph\<close>. The
  \<^verbatim>\<open>defaultdict(networkx.DiGraph)\<close> is a map: reading a missing function gives the empty
  graph. A location without a block address (a SimProcedure) is in no function.
\<close>

definition simrun_addr_to_func :: "(string \<times> int list) list \<Rightarrow> (int \<rightharpoonup> string)" where
  "simrun_addr_to_func funcs =
     fold (\<lambda>func m. fold (\<lambda>block m'. m'(block \<mapsto> fst func)) (snd func) m) funcs Map.empty"

definition func_of :: "(int \<rightharpoonup> string) \<Rightarrow> code_location \<Rightarrow> string option" where
  "func_of index loc = (case simrun_addr loc of None \<Rightarrow> None | Some b \<Rightarrow> index b)"

definition dd_graph :: "(string \<rightharpoonup> 'n digraph) \<Rightarrow> string \<Rightarrow> 'n digraph" where
  "dd_graph deps f = (case deps f of None \<Rightarrow> DiGraph | Some g \<Rightarrow> g)"

definition project_edge ::
  "(int \<rightharpoonup> string) \<Rightarrow> code_location \<times> code_location \<times> labels
     \<Rightarrow> (string \<rightharpoonup> code_location digraph) \<Rightarrow> (string \<rightharpoonup> code_location digraph)" where
  "project_edge index e deps =
     (let src = fst e; dst = fst (snd e); data = snd (snd e);
          src_target_func = func_of index src;
          deps1 = (case src_target_func of
                     None \<Rightarrow> deps
                   | Some f \<Rightarrow> deps(f \<mapsto> add_edge (dd_graph deps f) src dst data))
      in case func_of index dst of
           None \<Rightarrow> deps1
         | Some dst_target_func \<Rightarrow>
             if Some dst_target_func \<noteq> src_target_func then
               deps1(dst_target_func \<mapsto> add_edge (dd_graph deps1 dst_target_func) src dst data)
             else deps1)"

definition build_function_dependency_graphs :: "config \<Rightarrow> ddg \<Rightarrow> ddg" where
  "build_function_dependency_graphs conf self =
     self\<lparr>function_data_dependencies :=
       Some (fold (project_edge (simrun_addr_to_func (cfg_functions (the_cfg conf))))
               (edges_iter (stmt_graph self)) Map.empty)\<rparr>"

definition function_dependency_graph ::
  "config \<Rightarrow> ddg \<Rightarrow> string \<Rightarrow> code_location digraph option \<times> ddg" where
  "function_dependency_graph conf self func =
     (let self1 = (if function_data_dependencies self = None then
                     build_function_dependency_graphs conf self
                   else self)
      in (case function_data_dependencies self1 of
            None \<Rightarrow> None
          | Some deps \<Rightarrow> deps func, self1))"

text \<open>
  Descriptions for the proofs: the index that the projector builds from the functions
  of the CFG; \<open>owns index f e\<close>, an end point of the edge is in a block that the index
  gives to \<open>f\<close>; the edges that one function's graph receives.
\<close>

definition function_index :: "config \<Rightarrow> (int \<rightharpoonup> string)" where
  "function_index conf = simrun_addr_to_func (cfg_functions (the_cfg conf))"

definition owns :: "(int \<rightharpoonup> string) \<Rightarrow> string \<Rightarrow> code_location \<times> code_location \<times> labels \<Rightarrow> bool" where
  "owns index f e \<longleftrightarrow> func_of index (fst e) = Some f \<or> func_of index (fst (snd e)) = Some f"

definition add_if_owns ::
  "(int \<rightharpoonup> string) \<Rightarrow> string \<Rightarrow> code_location \<times> code_location \<times> labels
     \<Rightarrow> code_location digraph \<Rightarrow> code_location digraph" where
  "add_if_owns index f e g =
     (if owns index f e then add_edge g (fst e) (fst (snd e)) (snd (snd e)) else g)"

definition edge_key :: "'n \<times> 'n \<times> labels \<Rightarrow> 'n \<times> 'n" where
  "edge_key e = (fst e, fst (snd e))"

section \<open>The worklist scheduler\<close>

text \<open>
  \<^verbatim>\<open>_worklist_append\<close>. A job \<^verbatim>\<open>DDGJob(cfg_node, call_depth)\<close> is a pair. The Python sets
  \<^verbatim>\<open>worklist_set\<close>, \<^verbatim>\<open>traversed_nodes\<close> and \<^verbatim>\<open>inserted\<close> are lists without duplicates; the
  stack has its top at the head.
\<close>

record expansion =
  wl :: "(nat \<times> int) list"
  wl_set :: "nat list"
  stack :: "(nat \<times> int) list"
  traversed_nodes :: "nat list"
  inserted :: "nat list"

definition cfg_out_edges :: "cfg \<Rightarrow> nat \<Rightarrow> (nat \<times> nat \<times> jumpkind) list" where
  "cfg_out_edges c n = filter (\<lambda>e. fst e = n) (cfg_edges c)"

definition successors :: "cfg \<Rightarrow> nat \<Rightarrow> nat list" where
  "successors c n = map (\<lambda>e. fst (snd e)) (cfg_out_edges c n)"

definition in_degree :: "cfg \<Rightarrow> nat \<Rightarrow> nat" where
  "in_degree c n = length (filter (\<lambda>e. fst (snd e) = n) (cfg_edges c))"

definition push_job :: "nat \<Rightarrow> int \<Rightarrow> expansion \<Rightarrow> expansion" where
  "push_job dst depth x =
     x\<lparr>inserted := List.insert dst (inserted x),
       wl := wl x @ [(dst, depth)],
       wl_set := List.insert dst (wl_set x),
       stack := (dst, depth) # stack x\<rparr>"

definition expand_edge :: "int option \<Rightarrow> int \<Rightarrow> nat \<times> nat \<times> jumpkind \<Rightarrow> expansion \<Rightarrow> expansion" where
  "expand_edge bound depth e x =
     (let dst = fst (snd e); kind = snd (snd e)
      in if dst \<notin> set (traversed_nodes x) \<and> dst \<notin> set (wl_set x) then
           (let x1 = x\<lparr>traversed_nodes := List.insert dst (traversed_nodes x)\<rparr>
            in if kind = Ijk_Call then
                 (if (case bound of None \<Rightarrow> True | Some b \<Rightarrow> depth < b) then
                    push_job dst (depth + 1) x1
                  else x1)
               else if kind = Ijk_Ret then
                 (if depth > 0 then push_job dst (depth - 1) x1 else x1)
               else push_job dst depth x1)
         else x)"

definition untraversed :: "cfg \<Rightarrow> expansion \<Rightarrow> nat" where
  "untraversed c x = card ((\<lambda>e. fst (snd e)) ` set (cfg_edges c) - set (traversed_nodes x))"

lemma expand_edge_measure:
  assumes "e \<in> set (cfg_edges c)"
  shows "length (stack (expand_edge b d e x)) + untraversed c (expand_edge b d e x)
           \<le> length (stack x) + untraversed c x"
proof (cases "fst (snd e) \<in> set (traversed_nodes x) \<or> fst (snd e) \<in> set (wl_set x)")
  case True
  then show ?thesis by (auto simp: expand_edge_def)
next
  case False
  let ?D = "(\<lambda>e. fst (snd e)) ` set (cfg_edges c)"
  let ?T = "set (traversed_nodes x)"
  have mem: "fst (snd e) \<in> ?D - ?T" using assms False by auto
  have fin: "finite (?D - ?T)" by simp
  have "?D - insert (fst (snd e)) ?T = (?D - ?T) - {fst (snd e)}" by auto
  then have c1: "card (?D - insert (fst (snd e)) ?T) = card (?D - ?T) - 1"
    using mem fin by (simp add: card_Diff_singleton)
  have c2: "0 < card (?D - ?T)" using mem fin card_gt_0_iff by blast
  show ?thesis
    using False c1 c2
    by (simp add: expand_edge_def push_job_def untraversed_def Let_def)
qed

lemma fold_expand_edge_measure:
  "set es \<subseteq> set (cfg_edges c) \<Longrightarrow>
   length (stack (fold (expand_edge b d) es x)) + untraversed c (fold (expand_edge b d) es x)
     \<le> length (stack x) + untraversed c x"
proof (induction es arbitrary: x)
  case Nil
  then show ?case by simp
next
  case (Cons e es)
  have "length (stack (fold (expand_edge b d) es (expand_edge b d e x)))
          + untraversed c (fold (expand_edge b d) es (expand_edge b d e x))
        \<le> length (stack (expand_edge b d e x)) + untraversed c (expand_edge b d e x)"
    using Cons by simp
  also have "\<dots> \<le> length (stack x) + untraversed c x"
    using Cons.prems by (simp add: expand_edge_measure)
  finally show ?case by simp
qed

function expand :: "config \<Rightarrow> expansion \<Rightarrow> expansion" where
  "expand conf x =
     (case stack x of
        [] \<Rightarrow> x
      | nw # rest \<Rightarrow>
          expand conf
            (fold (expand_edge (call_depth conf) (snd nw))
               (cfg_out_edges (the_cfg conf) (fst nw)) (x\<lparr>stack := rest\<rparr>)))"
  by pat_completeness auto
termination
proof (relation "measure (\<lambda>(conf, x). length (stack x) + untraversed (the_cfg conf) x)")
  show "wf (measure (\<lambda>(conf, x). length (stack x) + untraversed (the_cfg conf) x))"
    by simp
next
  fix conf :: config and x :: expansion and nw rest
  assume s: "stack x = nw # rest"
  have "set (cfg_out_edges (the_cfg conf) (fst nw)) \<subseteq> set (cfg_edges (the_cfg conf))"
    by (auto simp: cfg_out_edges_def)
  from fold_expand_edge_measure [OF this, of "call_depth conf" "snd nw" "x\<lparr>stack := rest\<rparr>"]
  show "((conf, fold (expand_edge (call_depth conf) (snd nw))
                  (cfg_out_edges (the_cfg conf) (fst nw)) (x\<lparr>stack := rest\<rparr>)), conf, x)
        \<in> measure (\<lambda>(conf, x). length (stack x) + untraversed (the_cfg conf) x)"
    using s by (simp add: untraversed_def)
qed

definition worklist_append ::
  "config \<Rightarrow> nat \<times> int \<Rightarrow> (nat \<times> int) list \<times> nat list \<Rightarrow> (nat \<times> int) list \<times> nat list" where
  "worklist_append conf node_wrapper w =
     (if fst node_wrapper \<in> set (snd w) then w
      else
        (let x = expand conf
                   \<lparr>wl = fst w @ [node_wrapper],
                    wl_set = List.insert (fst node_wrapper) (snd w),
                    stack = [node_wrapper],
                    traversed_nodes = [fst node_wrapper],
                    inserted = [fst node_wrapper]\<rparr>
         in (wl x, wl_set x)))"

text \<open>
  \<^verbatim>\<open>_construct\<close>. The state of the loop: the analysis object, \<^verbatim>\<open>live_defs_per_node\<close>, the
  work-list and \<^verbatim>\<open>worklist_set\<close>. A dictionary of \<^verbatim>\<open>live_defs_per_node\<close> is changed in
  place, so the loop body reads it from the state each time.

  The merge of \<^verbatim>\<open>new_defs\<close> into the dictionary of the successor: a variable that the
  successor does not have yet gets the set object of \<^verbatim>\<open>new_defs\<close> itself
  (\<^verbatim>\<open>defs_for_next_node[var] = code_loc_set\<close>); otherwise the missing locations are added
  to the set object the successor has (\<^verbatim>\<open>defs_for_next_node[var].add(code_loc)\<close>).
\<close>

record scheduler =
  analysis :: ddg
  live_defs_per_node :: "nat \<rightharpoonup> live_definitions"
  worklist :: "(nat \<times> int) list"
  worklist_set :: "nat list"

record propagation =
  p_self :: ddg
  defs_for_next_node :: live_definitions
  changed :: bool

definition add_code_loc :: "nat \<Rightarrow> code_location \<Rightarrow> propagation \<Rightarrow> propagation" where
  "add_code_loc r code_loc m =
     (if code_loc \<notin> set (heap (p_self m) ! r) then
        m\<lparr>p_self := (p_self m)\<lparr>heap := (heap (p_self m))[r := heap (p_self m) ! r @ [code_loc]]\<rparr>,
          changed := True\<rparr>
      else m)"

definition merge_var :: "variable \<times> nat \<Rightarrow> propagation \<Rightarrow> propagation" where
  "merge_var d m =
     (let var = fst d; code_loc_set = snd d
      in case map_of (defs_for_next_node m) var of
           None \<Rightarrow>
             m\<lparr>defs_for_next_node := AList.update var code_loc_set (defs_for_next_node m),
               changed := True\<rparr>
         | Some r \<Rightarrow> fold (add_code_loc r) (heap (p_self m) ! code_loc_set) m)"

definition merge_defs :: "ddg \<Rightarrow> live_definitions \<Rightarrow> live_definitions \<Rightarrow> propagation" where
  "merge_defs self new_defs defs =
     fold merge_var new_defs \<lparr>p_self = self, defs_for_next_node = defs, changed = False\<rparr>"

definition defs_of :: "scheduler \<Rightarrow> nat \<Rightarrow> live_definitions" where
  "defs_of s n = (case live_defs_per_node s n of None \<Rightarrow> [] | Some d \<Rightarrow> d)"

definition new_depth :: "jumpkind \<Rightarrow> int \<Rightarrow> int" where
  "new_depth k depth =
     (if k = Ijk_Call then depth + 1 else if k = Ijk_Ret then depth - 1 else depth)"

definition corresponding_successors :: "cfg \<Rightarrow> nat \<Rightarrow> sim_state \<Rightarrow> nat list" where
  "corresponding_successors c node state =
     filter (\<lambda>n. case ip state of None \<Rightarrow> False | Some a \<Rightarrow> addr c n = a) (successors c node)"

definition propagate :: "config \<Rightarrow> nat \<Rightarrow> int \<Rightarrow> live_definitions \<Rightarrow> scheduler \<Rightarrow> scheduler" where
  "propagate conf successing_node new_call_depth new_defs s =
     (let m = merge_defs (analysis s) new_defs (defs_of s successing_node);
          s1 = s\<lparr>analysis := p_self m,
                 live_defs_per_node :=
                   (live_defs_per_node s)(successing_node \<mapsto> defs_for_next_node m)\<rparr>
      in if changed m \<and>
            (case call_depth conf of
               None \<Rightarrow> True
             | Some b \<Rightarrow> 0 \<le> new_call_depth \<and> new_call_depth \<le> b)
         then
           (let w = worklist_append conf (successing_node, new_call_depth)
                      (worklist s1, worklist_set s1)
            in s1\<lparr>worklist := fst w, worklist_set := snd w\<rparr>)
         else s1)"

definition process_state ::
  "config \<Rightarrow> nat \<Rightarrow> int \<Rightarrow> sim_state \<Rightarrow> scheduler \<Rightarrow> error + scheduler" where
  "process_state conf node depth state s =
     (if jumpkind state = Ijk_FakeRet \<and> length (final_states (the_cfg conf) node) > 1 then Inr s
      else if (case call_depth conf of None \<Rightarrow> False | Some b \<Rightarrow> depth > b) then Inr s
      else
        ebind (track conf (analysis s) state (defs_of s node)) (\<lambda>r.
          let s1 = s\<lparr>analysis := fst r\<rparr>
          in case corresponding_successors (the_cfg conf) node state of
               [] \<Rightarrow> Inr s1
             | successing_node # _ \<Rightarrow>
                 Inr (propagate conf successing_node (new_depth (jumpkind state) depth)
                        (snd r) s1)))"

definition construct_step :: "config \<Rightarrow> scheduler \<Rightarrow> error + scheduler" where
  "construct_step conf s =
     (case worklist s of
        [] \<Rightarrow> Inr s
      | ddg_job # rest \<Rightarrow>
          (let node = fst ddg_job; depth = snd ddg_job
           in if node \<notin> set (worklist_set s) then Inl KeyError
              else
                (let s1 = s\<lparr>worklist := rest, worklist_set := removeAll node (worklist_set s)\<rparr>;
                     s2 = s1\<lparr>live_defs_per_node :=
                               (live_defs_per_node s1)(node \<mapsto> defs_of s1 node)\<rparr>
                 in foldM (process_state conf node depth)
                      (final_states (the_cfg conf) node) s2)))"


definition empty_ddg :: ddg where
  "empty_ddg =
     \<lparr>stmt_graph = DiGraph, data_graph = DiGraph, simplified_data_graph = None,
      function_data_dependencies = None, heap = []\<rparr>"

definition seed_worklist :: "config \<Rightarrow> (nat \<times> int) list \<times> nat list" where
  "seed_worklist conf =
     fold (\<lambda>n w. if in_degree (the_cfg conf) n = 0 then worklist_append conf (n, 0) w else w)
       (cfg_nodes (the_cfg conf)) ([], [])"

definition initial_scheduler :: "config \<Rightarrow> scheduler" where
  "initial_scheduler conf =
     \<lparr>analysis = empty_ddg, live_defs_per_node = Map.empty,
      worklist = fst (seed_worklist conf), worklist_set = snd (seed_worklist conf)\<rparr>"



text \<open>
  A fixed number of iterations of the \<^verbatim>\<open>while worklist\<close> loop, to look at the scheduler
  between two iterations.
\<close>

fun construct_steps :: "nat \<Rightarrow> config \<Rightarrow> scheduler \<Rightarrow> error + scheduler" where
  "construct_steps 0 conf s = Inr s"
| "construct_steps (Suc n) conf s = ebind (construct_step conf s) (construct_steps n conf)"

text \<open>
  The set of code locations that the entry of a node in \<^verbatim>\<open>live_defs_per_node\<close> holds for
  a variable: the contents of the set object, read through the store.
\<close>

definition node_reaching :: "scheduler \<Rightarrow> nat \<Rightarrow> variable \<Rightarrow> code_location list option" where
  "node_reaching s n var = reaching_set (analysis s) (defs_of s n) var"

subsection \<open>Descriptions of the scheduler's store\<close>

text \<open>
  \<open>located\<close> is the contents of a variable's set as a HOL set (empty when the variable has
  no entry); \<open>refs_ok\<close> says that every set object a mapping refers to is allocated;
  \<open>grows\<close> says that no set object lost an element and none was freed; \<open>merged\<close> relates
  the state of a merge before and after one of its steps.
\<close>

definition located :: "ddg \<Rightarrow> live_definitions \<Rightarrow> variable \<Rightarrow> code_location set" where
  "located self defs var = (case reaching_set self defs var of None \<Rightarrow> {} | Some ls \<Rightarrow> set ls)"

definition refs_ok :: "ddg \<Rightarrow> live_definitions \<Rightarrow> bool" where
  "refs_ok self defs \<longleftrightarrow> (\<forall>d \<in> set defs. snd d < length (heap self))"

definition grows :: "'a list list \<Rightarrow> 'a list list \<Rightarrow> bool" where
  "grows h h' \<longleftrightarrow> length h \<le> length h' \<and> (\<forall>r < length h. set (h ! r) \<subseteq> set (h' ! r))"


text \<open>
  \<open>edges_into D G\<close>: every edge of \<open>G\<close> ends in \<open>D\<close>. The invariants of the analysis object
  and of the tracker: the store is only extended, the edges of the statement graph end
  in \<open>D\<close>, and the live definitions refer to allocated sets.
\<close>

definition edges_into :: "'n set \<Rightarrow> 'n digraph \<Rightarrow> bool" where
  "edges_into D G \<longleftrightarrow> (\<forall>u v. adj G (u, v) \<noteq> None \<longrightarrow> v \<in> D)"

definition ddg_inv :: "code_location set \<Rightarrow> code_location list list \<Rightarrow> ddg \<Rightarrow> bool" where
  "ddg_inv D h0 self \<longleftrightarrow> (\<exists>ext. heap self = h0 @ ext) \<and> edges_into D (stmt_graph self)"

definition tracker_inv :: "code_location set \<Rightarrow> code_location list list \<Rightarrow> tracker \<Rightarrow> bool" where
  "tracker_inv D h0 st \<longleftrightarrow> ddg_inv D h0 (this st) \<and> refs_ok (this st) (live_defs st)"

text \<open>
  The per-node store read as HOL sets, its well-formedness, the merge of the tracker's
  output into one node's entry (the part of \<^verbatim>\<open>_construct\<close> between
  \<^verbatim>\<open>changed = False\<close> and \<^verbatim>\<open>if changed\<close>), and the two \<^verbatim>\<open>continue\<close> conditions that skip a
  final state before it is tracked.
\<close>

definition node_located :: "scheduler \<Rightarrow> nat \<Rightarrow> variable \<Rightarrow> code_location set" where
  "node_located s n var = located (analysis s) (defs_of s n) var"

definition sched_ok :: "scheduler \<Rightarrow> bool" where
  "sched_ok s \<longleftrightarrow> (\<forall>n. refs_ok (analysis s) (defs_of s n))"


section \<open>Example inputs\<close>

text \<open>Concrete locations, graphs and architectures on which the theorems are instantiated.\<close>

definition loc_a :: code_location where
  "loc_a = CodeLocation (Some 0x400000) (Some 3) None (Some 0x400004)"

definition loc_b :: code_location where
  "loc_b = CodeLocation (Some 0x400000) (Some 7) None (Some 0x400009)"

definition loc_c :: code_location where
  "loc_c = CodeLocation (Some 0x400010) (Some 2) None (Some 0x400012)"

definition reg_labels :: labels where
  "reg_labels = [Type \<mapsto> StrV ''reg'', Count \<mapsto> IntV 0]"

definition rax :: variable where
  "rax = SimRegisterVariable 16 8"

definition one_edge_ddg :: ddg where
  "one_edge_ddg =
     data_graph_add_edge (stmt_graph_add_edge empty_ddg loc_a loc_b reg_labels)
       (ProgramVariable SimConstantVariable loc_a) (ProgramVariable rax loc_a) Map.empty"

text \<open>
  An architecture with two registers of different sizes, as archinfo describes them: the
  object has no attribute \<^verbatim>\<open>register_name\<close>. The second one is the same architecture with
  the attribute set to a register name.
\<close>

definition two_reg_arch :: arch where
  "two_reg_arch =
     \<lparr>register_names = [16 \<mapsto> ''rax'', 17 \<mapsto> ''ah''],
      registers = [''rax'' \<mapsto> (16, 8), ''ah'' \<mapsto> (17, 1)],
      register_name = None\<rparr>"

definition two_reg_arch_named :: arch where
  "two_reg_arch_named = two_reg_arch\<lparr>register_name := Some ''rax''\<rparr>"

definition plain_conf :: config where
  "plain_conf =
     \<lparr>the_cfg = \<lparr>cfg_nodes = [], cfg_edges = [], addr = (\<lambda>n. 0), final_states = (\<lambda>n. []),
                 cfg_functions = []\<rparr>,
      keep_data = False, call_depth = None, project_arch = two_reg_arch\<rparr>"

definition two_defs_ddg :: ddg where
  "two_defs_ddg = empty_ddg\<lparr>heap := [[loc_a, loc_b]]\<rparr>"


text \<open>Actions of a trace: writes and reads of the register at offset 16, a memory write.\<close>

definition no_deps :: sim_action_object where
  "no_deps = \<lparr>any_int = None, ast_size = 8, reg_deps = [], tmp_deps = []\<rparr>"

definition reg_action :: "action_kind \<Rightarrow> int \<Rightarrow> int \<Rightarrow> sim_action" where
  "reg_action k stmt ins =
     \<lparr>a_type = Reg, a_action = k, a_stmt_idx = Some stmt, a_bbl_addr = Some 0x400000,
      a_ins_addr = Some ins, a_sim_procedure = None, a_actual_addrs = None,
      a_addr = no_deps, a_data = no_deps, a_offset = 16, a_tmp = 0,
      a_reg_deps = [], a_tmp_deps = []\<rparr>"

definition mem_write :: sim_action where
  "mem_write =
     \<lparr>a_type = Mem, a_action = Write, a_stmt_idx = Some 3, a_bbl_addr = Some 0x400000,
      a_ins_addr = Some 0x400004, a_sim_procedure = None, a_actual_addrs = Some [0x7fff0000],
      a_addr = no_deps, a_data = no_deps, a_offset = 0, a_tmp = 0,
      a_reg_deps = [], a_tmp_deps = []\<rparr>"

text \<open>
  Data graphs: a chain through a temporary; a chain through a temporary beside a direct
  edge.
\<close>

definition chain_graph ::
  "program_variable \<Rightarrow> program_variable \<Rightarrow> program_variable \<Rightarrow> labels \<Rightarrow> labels
     \<Rightarrow> program_variable digraph" where
  "chain_graph A T B din dout = \<lparr>nodes = [A, T, B], adj = [(A, T) \<mapsto> din, (T, B) \<mapsto> dout]\<rparr>"

definition pv_A :: program_variable where "pv_A = ProgramVariable rax loc_a"

definition pv_T :: program_variable where "pv_T = ProgramVariable (SimTemporaryVariable 1) loc_b"

definition pv_B :: program_variable where
  "pv_B = ProgramVariable (SimMemoryVariable 0x7fff0000 8) loc_c"

definition shortcut_graph :: "program_variable digraph" where
  "shortcut_graph =
     \<lparr>nodes = [pv_A, pv_T, pv_B],
      adj = [(pv_A, pv_T) \<mapsto> Map.empty, (pv_T, pv_B) \<mapsto> Map.empty,
             (pv_A, pv_B) \<mapsto> [Type \<mapsto> StrV ''mem_addr'']]\<rparr>"

definition shortcut_simplified :: "program_variable digraph" where
  "shortcut_simplified =
     \<lparr>nodes = [pv_A, pv_B], adj = [(pv_A, pv_B) \<mapsto> [Type \<mapsto> StrV ''mem_addr'']]\<rparr>"

text \<open>
  A block that writes a register, reads it into two temporaries and stores the second
  temporary at the address held by the first; the data graph the tracker builds for
  it; and that graph simplified, with the label the spliced edge gets.
\<close>

definition tmp_deps_obj :: "int list \<Rightarrow> sim_action_object" where
  "tmp_deps_obj ts = \<lparr>any_int = None, ast_size = 8, reg_deps = [], tmp_deps = ts\<rparr>"

definition tmp_write :: "int \<Rightarrow> int \<Rightarrow> int \<Rightarrow> sim_action" where
  "tmp_write t stmt ins =
     \<lparr>a_type = Tmp, a_action = Write, a_stmt_idx = Some stmt, a_bbl_addr = Some 0x400000,
      a_ins_addr = Some ins, a_sim_procedure = None, a_actual_addrs = None,
      a_addr = no_deps, a_data = no_deps, a_offset = 0, a_tmp = t,
      a_reg_deps = [], a_tmp_deps = []\<rparr>"

definition store_action :: sim_action where
  "store_action =
     \<lparr>a_type = Mem, a_action = Write, a_stmt_idx = Some 9, a_bbl_addr = Some 0x400000,
      a_ins_addr = Some 0x40000c, a_sim_procedure = None, a_actual_addrs = Some [0x7fff0000],
      a_addr = tmp_deps_obj [1], a_data = tmp_deps_obj [2], a_offset = 0, a_tmp = 0,
      a_reg_deps = [], a_tmp_deps = [1, 2]\<rparr>"

definition store_state :: sim_state where
  "store_state =
     \<lparr>jumpkind = Ijk_Boring, ip = Some 0x400010,
      actions = [reg_action Write 1 0x400001,
                 reg_action Read 3 0x400004, tmp_write 1 3 0x400004,
                 reg_action Read 7 0x400009, tmp_write 2 7 0x400009,
                 store_action]\<rparr>"


definition st_R :: program_variable where
  "st_R = ProgramVariable rax (CodeLocation (Some 0x400000) (Some 1) None (Some 0x400001))"

definition st_C :: program_variable where
  "st_C = ProgramVariable SimConstantVariable
            (CodeLocation (Some 0x400000) (Some 1) None (Some 0x400001))"

definition st_T1 :: program_variable where
  "st_T1 = ProgramVariable (SimTemporaryVariable 1) loc_a"

definition st_T2 :: program_variable where
  "st_T2 = ProgramVariable (SimTemporaryVariable 2) loc_b"

definition st_M :: program_variable where
  "st_M = ProgramVariable (SimMemoryVariable 0x7fff0000 8)
            (CodeLocation (Some 0x400000) (Some 9) None (Some 0x40000c))"

definition store_graph :: "program_variable digraph" where
  "store_graph =
     \<lparr>nodes = [st_R, st_C, st_T1, st_T2, st_M],
      adj = [(st_C, st_R) \<mapsto> Map.empty, (st_R, st_T1) \<mapsto> Map.empty,
             (st_R, st_T2) \<mapsto> Map.empty,
             (st_T1, st_M) \<mapsto> [Type \<mapsto> StrV ''mem_addr''],
             (st_T2, st_M) \<mapsto> [Type \<mapsto> StrV ''mem_data'']]\<rparr>"

definition store_simplified :: "string \<Rightarrow> program_variable digraph" where
  "store_simplified ty =
     \<lparr>nodes = [st_R, st_C, st_M],
      adj = [(st_C, st_R) \<mapsto> Map.empty, (st_R, st_M) \<mapsto> [Type \<mapsto> StrV ty]]\<rparr>"

text \<open>
  Function tables: three functions with blocks of their own, and two functions that
  list the same block; a statement graph with one edge from the first block to the
  second.
\<close>

definition functions_conf :: "(string \<times> int list) list \<Rightarrow> config" where
  "functions_conf funcs =
     plain_conf\<lparr>the_cfg := (the_cfg plain_conf)\<lparr>cfg_functions := funcs\<rparr>\<rparr>"

definition two_function_conf :: config where
  "two_function_conf =
     functions_conf [(''caller'', [0x400000]), (''callee'', [0x400010]), (''other'', [0x500000])]"

definition shared_block_conf :: config where
  "shared_block_conf = functions_conf [(''f'', [0x400000]), (''g'', [0x400000])]"

definition cross_ddg :: ddg where
  "cross_ddg = stmt_graph_add_edge empty_ddg loc_a loc_c reg_labels"


text \<open>
  A control-flow graph with a join: block 0 writes \<^verbatim>\<open>rax\<close> and jumps to block 1, block 1
  jumps to block 2, and block 3 writes \<^verbatim>\<open>rax\<close> and jumps to block 2. Blocks 0 and 3 have no
  predecessor. The scheduler is looked at when block 3 is the only job left.
\<close>

definition reg_write_at :: "int \<Rightarrow> sim_action" where
  "reg_write_at bbl =
     \<lparr>a_type = Reg, a_action = Write, a_stmt_idx = Some 1, a_bbl_addr = Some bbl,
      a_ins_addr = Some (bbl + 1), a_sim_procedure = None, a_actual_addrs = None,
      a_addr = no_deps, a_data = no_deps, a_offset = 16, a_tmp = 0,
      a_reg_deps = [], a_tmp_deps = []\<rparr>"

definition loc_at :: "int \<Rightarrow> code_location" where
  "loc_at bbl = CodeLocation (Some bbl) (Some 1) None (Some (bbl + 1))"

definition jump_state :: "int \<Rightarrow> sim_action list \<Rightarrow> sim_state" where
  "jump_state target acts = \<lparr>jumpkind = Ijk_Boring, ip = Some target, actions = acts\<rparr>"

definition block_addr :: "nat \<Rightarrow> int" where
  "block_addr n = 0x400000 + 0x10 * int n"

definition alias_cfg :: cfg where
  "alias_cfg =
     \<lparr>cfg_nodes = [0, 1, 2, 3],
      cfg_edges = [(0, 1, Ijk_Boring), (1, 2, Ijk_Boring), (3, 2, Ijk_Boring)],
      addr = block_addr,
      final_states = (\<lambda>n. if n = 0 then [jump_state (block_addr 1) [reg_write_at (block_addr 0)]]
                          else if n = 1 then [jump_state (block_addr 2) []]
                          else if n = 3 then [jump_state (block_addr 2) [reg_write_at (block_addr 3)]]
                          else []),
      cfg_functions = []\<rparr>"

definition alias_conf :: config where
  "alias_conf = \<lparr>the_cfg = alias_cfg, keep_data = False, call_depth = None,
                  project_arch = two_reg_arch\<rparr>"




section \<open>Idempotent edge insertion\<close>

lemma stmt_graph_add_edge_present:
  "has_edge (stmt_graph self) src dst \<Longrightarrow> stmt_graph_add_edge self src dst l = self"
  by (simp add: stmt_graph_add_edge_def)

lemma data_graph_add_edge_present:
  "has_edge (data_graph self) src dst \<Longrightarrow> data_graph_add_edge self src dst l = self"
  by (simp add: data_graph_add_edge_def)

lemma has_edge_add_edge: "has_edge (add_edge G u v l) u v"
  by (simp add: has_edge_def add_edge_def add_node_def Let_def)

lemma has_edge_stmt_graph_add_edge:
  "has_edge (stmt_graph (stmt_graph_add_edge self src dst l)) src dst"
  by (simp add: stmt_graph_add_edge_def has_edge_add_edge)

lemma has_edge_data_graph_add_edge:
  "has_edge (data_graph (data_graph_add_edge self src dst l)) src dst"
  by (simp add: data_graph_add_edge_def has_edge_add_edge)

text \<open>
  C3: inserting an edge \<open>(src, dst)\<close> that the Statement graph or the Data graph already
  has leaves the whole analysis object unchanged (the graph, the labels of the edge and
  the cache); so a second insertion of the same pair, with any labels, changes nothing,
  and the graph holds the one edge with the labels of the first insertion.
\<close>

theorem add_edge_idempotent:
  "(has_edge (stmt_graph self) src dst \<longrightarrow> stmt_graph_add_edge self src dst l2 = self) \<and>
   (has_edge (data_graph self) psrc pdst \<longrightarrow> data_graph_add_edge self psrc pdst l2 = self) \<and>
   stmt_graph_add_edge (stmt_graph_add_edge self src dst l1) src dst l2 =
     stmt_graph_add_edge self src dst l1 \<and>
   data_graph_add_edge (data_graph_add_edge self psrc pdst l1) psrc pdst l2 =
     data_graph_add_edge self psrc pdst l1 \<and>
   (wf_digraph (stmt_graph self) \<and> \<not> has_edge (stmt_graph self) src dst \<longrightarrow>
      adj (stmt_graph (stmt_graph_add_edge (stmt_graph_add_edge self src dst l1) src dst l2))
        (src, dst) = Some l1)"
proof -
  have a: "adj (add_edge G u v l1) (u, v) = Some l1"
    if "wf_digraph G" and "\<not> has_edge G u v" for G :: "code_location digraph" and u v
  proof -
    from that have "adj G (u, v) = None"
      unfolding wf_digraph_def has_edge_def by blast
    then show ?thesis
      by (simp add: add_edge_def add_node_def)
  qed
  have "wf_digraph (stmt_graph self) \<Longrightarrow> \<not> has_edge (stmt_graph self) src dst \<Longrightarrow>
      adj (stmt_graph (stmt_graph_add_edge self src dst l1)) (src, dst) = Some l1"
    by (simp add: stmt_graph_add_edge_def a)
  then show ?thesis
    by (simp add: stmt_graph_add_edge_present data_graph_add_edge_present
        has_edge_stmt_graph_add_edge has_edge_data_graph_add_edge)
qed

theorem add_edge_idempotent_witness:
  "has_edge (stmt_graph one_edge_ddg) loc_a loc_b \<and>
   stmt_graph_add_edge one_edge_ddg loc_a loc_b [Type \<mapsto> StrV ''mem''] = one_edge_ddg \<and>
   has_edge (data_graph one_edge_ddg)
     (ProgramVariable SimConstantVariable loc_a) (ProgramVariable rax loc_a) \<and>
   data_graph_add_edge one_edge_ddg
     (ProgramVariable SimConstantVariable loc_a) (ProgramVariable rax loc_a)
     [Type \<mapsto> StrV ''mem_addr''] = one_edge_ddg \<and>
   wf_digraph (stmt_graph empty_ddg) \<and> \<not> has_edge (stmt_graph empty_ddg) loc_a loc_b \<and>
   adj (stmt_graph (stmt_graph_add_edge (stmt_graph_add_edge empty_ddg loc_a loc_b reg_labels)
          loc_a loc_b [Type \<mapsto> StrV ''mem''])) (loc_a, loc_b) = Some reg_labels"
proof -
  have s: "has_edge (stmt_graph one_edge_ddg) loc_a loc_b"
    by (simp add: one_edge_ddg_def data_graph_add_edge_def has_edge_stmt_graph_add_edge)
  have d: "has_edge (data_graph one_edge_ddg)
     (ProgramVariable SimConstantVariable loc_a) (ProgramVariable rax loc_a)"
    by (simp add: one_edge_ddg_def has_edge_data_graph_add_edge)
  have w: "wf_digraph (stmt_graph empty_ddg)"
    by (simp add: empty_ddg_def DiGraph_def wf_digraph_def)
  have n: "\<not> has_edge (stmt_graph empty_ddg) loc_a loc_b"
    by (simp add: empty_ddg_def DiGraph_def has_edge_def)
  from add_edge_idempotent [of one_edge_ddg loc_a loc_b "[Type \<mapsto> StrV ''mem'']"
      "ProgramVariable SimConstantVariable loc_a" "ProgramVariable rax loc_a" reg_labels]
  have 1: "stmt_graph_add_edge one_edge_ddg loc_a loc_b [Type \<mapsto> StrV ''mem''] = one_edge_ddg"
    using s by blast
  from add_edge_idempotent [of one_edge_ddg loc_a loc_b "[Type \<mapsto> StrV ''mem_addr'']"
      "ProgramVariable SimConstantVariable loc_a" "ProgramVariable rax loc_a" reg_labels]
  have 2: "data_graph_add_edge one_edge_ddg
     (ProgramVariable SimConstantVariable loc_a) (ProgramVariable rax loc_a)
     [Type \<mapsto> StrV ''mem_addr''] = one_edge_ddg"
    using d by blast
  from add_edge_idempotent [of empty_ddg loc_a loc_b "[Type \<mapsto> StrV ''mem'']"
      "ProgramVariable SimConstantVariable loc_a" "ProgramVariable rax loc_a" reg_labels]
  have 3: "adj (stmt_graph (stmt_graph_add_edge (stmt_graph_add_edge empty_ddg loc_a loc_b reg_labels)
          loc_a loc_b [Type \<mapsto> StrV ''mem''])) (loc_a, loc_b) = Some reg_labels"
    using w n by blast
  from s d w n 1 2 3 show ?thesis by blast
qed

section \<open>Register sizes\<close>

text \<open>
  C7: the size lookup reads \<^verbatim>\<open>self.project.arch.register_name\<close>, not
  \<^verbatim>\<open>register_names[reg_offset]\<close>. On an architecture object without that attribute it
  raises for every offset of the register-name table; where the attribute is a register
  name, it returns the size of that one register for every offset of the table (here 8
  for \<^verbatim>\<open>ah\<close>, whose recorded size is 1). Only an offset that is not in the table gets the
  default 1.
\<close>

theorem get_register_size_present_offset:
  "get_register_size two_reg_arch 16 = Inl AttributeError \<and>
   registers two_reg_arch ''rax'' = Some (16, 8) \<and>
   get_register_size two_reg_arch_named 17 = Inr 8 \<and>
   register_names two_reg_arch_named 17 = Some ''ah'' \<and>
   registers two_reg_arch_named ''ah'' = Some (17, 1) \<and>
   get_register_size two_reg_arch 99 = Inr 1"
  by (simp add: get_register_size_def two_reg_arch_def two_reg_arch_named_def)

lemma get_register_size_absent:
  "reg_offset \<notin> dom (register_names a) \<Longrightarrow> get_register_size a reg_offset = Inr 1"
  by (simp add: get_register_size_def)

lemma get_register_size_independent_of_offset:
  "o1 \<in> dom (register_names a) \<Longrightarrow> o2 \<in> dom (register_names a) \<Longrightarrow>
   get_register_size a o1 = get_register_size a o2"
  by (simp add: get_register_size_def)

section \<open>Reaching-definition lookup\<close>

lemma ebind_simps [simp]: "ebind (Inl e) f = Inl e" "ebind (Inr x) f = f x"
  by (simp_all add: ebind_def)

lemma update_fresh: "k \<notin> fst ` set ps \<Longrightarrow> AList.update k v ps = ps @ [(k, v)]"
  by (induction ps) auto

lemma def_lookup_fold:
  assumes "variable_type var = Some ty" "distinct locs" "set locs \<inter> fst ` set acc = {}"
  shows "foldM (def_lookup_step False var) locs acc =
         Inr (acc @ map (\<lambda>l. (l, [Type \<mapsto> StrV ty, Count \<mapsto> IntV 0])) locs)"
  using assms
proof (induction locs arbitrary: acc)
  case Nil
  then show ?case by simp
next
  case (Cons l locs)
  have fresh: "l \<notin> fst ` set acc" using Cons.prems by auto
  then have none: "map_of acc l = None" by (simp add: map_of_eq_None_iff)
  have step: "def_lookup_step False var l acc = Inr (acc @ [(l, [Type \<mapsto> StrV ty, Count \<mapsto> IntV 0])])"
    using Cons.prems(1) none fresh by (simp add: def_lookup_step_def update_fresh)
  have "set locs \<inter> fst ` set (acc @ [(l, [Type \<mapsto> StrV ty, Count \<mapsto> IntV 0])]) = {}"
    using Cons.prems by auto
  with Cons.IH [of "acc @ [(l, [Type \<mapsto> StrV ty, Count \<mapsto> IntV 0])]"] Cons.prems step
  show ?case by (auto simp: fun_eq_iff)
qed

lemma foldM_def_lookup_err:
  "variable_type var = None \<Longrightarrow> locs \<noteq> [] \<Longrightarrow>
   foldM (def_lookup_step k var) locs acc = Inl AngrDDGError"
  by (cases locs) (simp_all add: def_lookup_step_def)

text \<open>
  C10: without \<^verbatim>\<open>keep_data\<close>, every label dictionary that the reaching-definition lookup
  returns has \<^verbatim>\<open>count = 0\<close>. The reaching set is a set object, so its locations are
  distinct, no location is met twice in one lookup, and the branch that increments the
  count is never taken.
\<close>

theorem def_lookup_count_zero:
  assumes "\<not> keep_data conf"
    and "\<forall>r. map_of defs var = Some r \<longrightarrow> distinct (heap self ! r)"
    and "def_lookup conf self defs var = Inr prevdefs"
  shows "\<forall>d \<in> set prevdefs. snd d Count = Some (IntV 0)"
proof (cases "map_of defs var")
  case None
  with assms show ?thesis by (simp add: def_lookup_def)
next
  case (Some r)
  with assms have d: "distinct (heap self ! r)" by simp
  show ?thesis
  proof (cases "variable_type var")
    case None
    with assms Some have "heap self ! r = []"
      using foldM_def_lookup_err [of var "heap self ! r" False "[]"]
      by (cases "heap self ! r = []") (auto simp: def_lookup_def)
    with assms Some show ?thesis by (simp add: def_lookup_def)
  next
    case (Some ty)
    from def_lookup_fold [OF Some d, of "[]"] assms \<open>map_of defs var = Some r\<close>
    show ?thesis by (auto simp: def_lookup_def)
  qed
qed

theorem def_lookup_count_zero_witness:
  "\<not> keep_data plain_conf \<and>
   map_of [(rax, 0)] rax = Some 0 \<and> distinct (heap two_defs_ddg ! 0) \<and>
   def_lookup plain_conf two_defs_ddg [(rax, 0)] rax =
     Inr [(loc_a, reg_labels), (loc_b, reg_labels)] \<and>
   snd (loc_a, reg_labels) Count = Some (IntV 0) \<and>
   snd (loc_b, reg_labels) Count = Some (IntV 0)"
proof -
  have k: "\<not> keep_data plain_conf" by (simp add: plain_conf_def)
  have d: "\<forall>r. map_of [(rax, 0)] rax = Some r \<longrightarrow> distinct (heap two_defs_ddg ! r)"
    by (simp add: two_defs_ddg_def loc_a_def loc_b_def)
  have l: "def_lookup plain_conf two_defs_ddg [(rax, 0)] rax =
     Inr [(loc_a, reg_labels), (loc_b, reg_labels)]"
    by (simp add: def_lookup_def def_lookup_step_def variable_type_def rax_def plain_conf_def
        two_defs_ddg_def loc_a_def loc_b_def reg_labels_def)
  from def_lookup_count_zero [OF k d l] have
    "snd (loc_a, reg_labels) Count = Some (IntV 0) \<and> snd (loc_b, reg_labels) Count = Some (IntV 0)"
    by simp
  with k d l show ?thesis by simp
qed


section \<open>Kill on write\<close>

lemma foldM_inv:
  assumes "foldM f xs s = Inr s'" and "P s"
    and "\<And>x t t'. x \<in> set xs \<Longrightarrow> P t \<Longrightarrow> f x t = Inr t' \<Longrightarrow> P t'"
  shows "P s'"
  using assms
proof (induction xs arbitrary: s)
  case Nil
  then show ?case by simp
next
  case (Cons x xs)
  from Cons.prems(1) obtain t where t: "f x s = Inr t" "foldM f xs t = Inr s'"
    by (auto split: sum.splits)
  have "P t" using Cons.prems(2,3) t(1) by auto
  with Cons.IH [OF t(2)] Cons.prems(3) show ?case by auto
qed

lemma fold_inv:
  assumes "P s" and "\<And>x t. x \<in> set xs \<Longrightarrow> P t \<Longrightarrow> P (f x t)"
  shows "P (fold f xs s)"
  using assms by (induction xs arbitrary: s) auto

lemma ebind_Inr_iff: "ebind m f = Inr y \<longleftrightarrow> (\<exists>x. m = Inr x \<and> f x = Inr y)"
  by (cases m) (simp_all)

lemma heap_stmt_graph_add_edge [simp]: "heap (stmt_graph_add_edge s a b l) = heap s"
  by (simp add: stmt_graph_add_edge_def)

lemma heap_data_graph_add_edge [simp]: "heap (data_graph_add_edge s a b l) = heap s"
  by (simp add: data_graph_add_edge_def)

lemma heap_data_graph_add_node [simp]: "heap (data_graph_add_node s a) = heap s"
  by (simp add: data_graph_add_node_def)

lemma stmt_graph_data_graph_add_edge [simp]:
  "stmt_graph (data_graph_add_edge s a b l) = stmt_graph s"
  by (simp add: data_graph_add_edge_def)

lemma stmt_graph_data_graph_add_node [simp]:
  "stmt_graph (data_graph_add_node s a) = stmt_graph s"
  by (simp add: data_graph_add_node_def)

lemma annotate_edge_heap: "annotate_edge nl e s = Inr s' \<Longrightarrow> heap s' = heap s"
  by (auto simp: annotate_edge_def Let_def split: if_splits option.splits sum.splits)

lemma annotate_edges_heap: "stmt_graph_annotate_edges s es nl = Inr s' \<Longrightarrow> heap s' = heap s"
  unfolding stmt_graph_annotate_edges_def
  by (rule foldM_inv [where P = "\<lambda>t. heap t = heap s"]) (auto dest: annotate_edge_heap)

lemma reg_dep_step_frame:
  "reg_dep_step conf sub off st = Inr st' \<Longrightarrow>
   heap (this st') = heap (this st) \<and> live_defs st' = live_defs st"
  by (auto simp: reg_dep_step_def Let_def ebind_Inr_iff split: if_splits dest: annotate_edges_heap)

lemma tmp_dep_step_frame:
  assumes "tmp_dep_step sub p tmp st = Inr st'"
  shows "heap (this st') = heap (this st) \<and> live_defs st' = live_defs st"
proof -
  from assms obtain self1 where
    a: "stmt_graph_annotate_edges (this st) (dd_lookup (temps_to_edges st) tmp) [(Subtype, sub)]
          = Inr self1"
    and b: "st' = (case temp_variables st tmp of
                  None \<Rightarrow> st\<lparr>temps_to_edges := dd_touch (temps_to_edges st) tmp, this := self1\<rparr>
                | Some tv \<Rightarrow> st\<lparr>temps_to_edges := dd_touch (temps_to_edges st) tmp,
                      this := data_graph_add_edge self1 tv p [Type \<mapsto> StrV sub]\<rparr>)"
    by (auto simp: tmp_dep_step_def Let_def ebind_Inr_iff)
  from annotate_edges_heap [OF a] b show ?thesis
    by (simp split: option.splits)
qed

lemma foldM_reg_dep_frame:
  assumes "foldM (reg_dep_step conf sub) offs st = Inr st'"
  shows "heap (this st') = heap (this st) \<and> live_defs st' = live_defs st"
  by (rule foldM_inv [OF assms, where P = "\<lambda>t. heap (this t) = heap (this st) \<and> live_defs t = live_defs st"])
     (auto dest: reg_dep_step_frame)

lemma foldM_tmp_dep_frame:
  assumes "foldM (tmp_dep_step sub p) tmps st = Inr st'"
  shows "heap (this st') = heap (this st) \<and> live_defs st' = live_defs st"
  by (rule foldM_inv [OF assms, where P = "\<lambda>t. heap (this t) = heap (this st) \<and> live_defs t = live_defs st"])
     (auto dest: tmp_dep_step_frame)

lemma map_of_update [simp]: "map_of (AList.update k v ps) = (map_of ps)(k \<mapsto> v)"
  by (rule update_conv')

lemma reaching_set_kill:
  "reaching_set (fst (kill self defs var loc)) (snd (kill self defs var loc)) var = Some [loc]"
  by (simp add: reaching_set_def kill_def)

lemma track_mem_addr_write:
  assumes "track_mem_addr conf a cur ad st = Inr st'" and "a_action a = Write"
  shows "killed_at (SimMemoryVariable ad (ast_size (a_data a))) cur st' \<and>
         (killed_at var cur st \<longrightarrow> killed_at var cur st')"
proof -
  let ?v = "SimMemoryVariable ad (ast_size (a_data a))"
  let ?st0 = "st\<lparr>pv := Some (ProgramVariable ?v cur)\<rparr>"
  let ?st2 = "?st0\<lparr>this := fst (kill (this ?st0) (live_defs ?st0) ?v cur),
                   live_defs := snd (kill (this ?st0) (live_defs ?st0) ?v cur)\<rparr>"
  have a: "mem_access conf a cur ?v ?st0 = Inr ?st2"
    using assms(2) by (simp add: mem_access_def Let_def)
  from assms(1) obtain st3 st4 st5 where
    s3: "foldM (reg_dep_step conf ''mem_addr'') (reg_deps (a_addr a)) ?st2 = Inr st3" and
    s4: "foldM (tmp_dep_step ''mem_addr'' (ProgramVariable ?v cur)) (tmp_deps (a_addr a)) st3 = Inr st4" and
    s5: "foldM (reg_dep_step conf ''mem_data'') (reg_deps (a_data a)) st4 = Inr st5" and
    s6: "foldM (tmp_dep_step ''mem_data'' (ProgramVariable ?v cur)) (tmp_deps (a_data a)) st5 = Inr st'"
    unfolding track_mem_addr_def Let_def a ebind_simps ebind_Inr_iff by blast
  have eq: "heap (this st') = heap (this ?st2) \<and> live_defs st' = live_defs ?st2"
    using foldM_reg_dep_frame [OF s3] foldM_tmp_dep_frame [OF s4]
      foldM_reg_dep_frame [OF s5] foldM_tmp_dep_frame [OF s6] by simp
  have 1: "killed_at ?v cur ?st2"
    by (simp add: killed_at_def kill_def)
  have 2: "killed_at var cur ?st2" if "killed_at var cur st"
    using that by (auto simp: killed_at_def kill_def nth_append)
  from 1 2 eq show ?thesis by (simp add: killed_at_def)
qed

lemma track_mem_write:
  assumes "foldM (track_mem_addr conf a cur) ads st = Inr st'" and "a_action a = Write"
    and "ad \<in> set ads"
  shows "killed_at (SimMemoryVariable ad (ast_size (a_data a))) cur st'"
  using assms
proof (induction ads arbitrary: st)
  case Nil
  then show ?case by simp
next
  case (Cons x xs)
  from Cons.prems(1) obtain t where t: "track_mem_addr conf a cur x st = Inr t"
    "foldM (track_mem_addr conf a cur) xs t = Inr st'"
    by (auto split: sum.splits)
  show ?case
  proof (cases "ad \<in> set xs")
    case True
    with Cons.IH [OF t(2) Cons.prems(2)] show ?thesis by simp
  next
    case False
    with Cons.prems(3) have "ad = x" by simp
    with track_mem_addr_write [OF t(1) Cons.prems(2)] have k: "killed_at (SimMemoryVariable ad (ast_size (a_data a))) cur t"
      by simp
    show ?thesis
      by (rule foldM_inv [OF t(2), where P = "killed_at (SimMemoryVariable ad (ast_size (a_data a))) cur", OF k])
        (use track_mem_addr_write Cons.prems(2) in blast)
  qed
qed

lemma killed_at_reaching:
  "killed_at var cur st \<Longrightarrow> reaching_set (this st) (live_defs st) var = Some [cur]"
  by (auto simp: killed_at_def reaching_set_def)

lemma reg_tmp_dep_total:
  assumes "pv st \<noteq> None"
  shows "\<exists>st'. foldM reg_tmp_dep_step tmps st = Inr st' \<and> heap (this st') = heap (this st) \<and>
           live_defs st' = live_defs st \<and> stmt_graph (this st') = stmt_graph (this st) \<and>
           pv st' = pv st"
  using assms
proof (induction tmps arbitrary: st)
  case Nil
  then show ?case by simp
next
  case (Cons t ts)
  then obtain p where p: "pv st = Some p" by auto
  obtain st1 where s1: "reg_tmp_dep_step t st = Inr st1" "heap (this st1) = heap (this st)"
    "live_defs st1 = live_defs st" "stmt_graph (this st1) = stmt_graph (this st)" "pv st1 = pv st"
    using p by (cases "temp_variables st t") (auto simp: reg_tmp_dep_step_def)
  with Cons.IH [of st1] Cons.prems show ?case by auto
qed


lemma track_reg_write_kills:
  assumes "a_action a = Write"
  shows "\<exists>st'. track_reg conf a cur st = Inr st' \<and>
           killed_at (SimRegisterVariable (a_offset a) (ast_size (a_data a))) cur st' \<and>
           stmt_graph (this st') = stmt_graph (this st) \<and> pv st' \<noteq> None"
proof -
  let ?v = "SimRegisterVariable (a_offset a) (ast_size (a_data a))"
  let ?st2 = "track_reg_write a ?v (a_offset a) cur st"
  have e: "track_reg conf a cur st = foldM reg_tmp_dep_step (a_tmp_deps a) ?st2"
    using assms by (simp add: track_reg_def Let_def)
  have k: "killed_at ?v cur ?st2"
    by (simp add: track_reg_write_def Let_def killed_at_def kill_def)
  have g: "stmt_graph (this ?st2) = stmt_graph (this st)"
    by (simp add: track_reg_write_def Let_def kill_def)
  have p: "pv ?st2 \<noteq> None" by (simp add: track_reg_write_def Let_def)
  from reg_tmp_dep_total [OF p, of "a_tmp_deps a"] obtain st' where
    s: "foldM reg_tmp_dep_step (a_tmp_deps a) ?st2 = Inr st'"
       "heap (this st') = heap (this ?st2)" "live_defs st' = live_defs ?st2"
       "stmt_graph (this st') = stmt_graph (this ?st2)" "pv st' = pv ?st2"
    by blast
  have "killed_at ?v cur st'"
    using k s(2,3) by (simp add: killed_at_def)
  with e s g p show ?thesis by (metis (no_types, lifting))
qed

lemma def_lookup_killed:
  assumes "killed_at var src st" and "variable_type var = Some ''reg''"
  shows "def_lookup conf (this st) (live_defs st) var = Inr [(src, reg_edge_labels conf var)]"
  using assms
  by (auto simp: killed_at_def def_lookup_def def_lookup_step_def reg_edge_labels_def)

lemma track_reg_read_edge:
  assumes "a_action a = Read" and "pv st \<noteq> None"
    and "killed_at (SimRegisterVariable (a_offset a) (ast_size (a_data a))) src st"
  shows "\<exists>st'. track_reg conf a cur st = Inr st' \<and>
           stmt_graph (this st') =
             stmt_graph (stmt_graph_add_edge (this st) src cur
               (reg_edge_labels conf (SimRegisterVariable (a_offset a) (ast_size (a_data a)))))"
proof -
  let ?v = "SimRegisterVariable (a_offset a) (ast_size (a_data a))"
  let ?st1 = "reg_read_step ?v (a_offset a) cur (src, reg_edge_labels conf ?v) st"
  have l: "def_lookup conf (this st) (live_defs st) ?v = Inr [(src, reg_edge_labels conf ?v)]"
    by (rule def_lookup_killed [OF assms(3)]) (simp add: variable_type_def)
  have e: "track_reg conf a cur st = foldM reg_tmp_dep_step (a_tmp_deps a) ?st1"
    using assms(1) l by (simp add: track_reg_def track_reg_read_def Let_def)
  have p: "pv ?st1 \<noteq> None" using assms(2) by (simp add: reg_read_step_def)
  from reg_tmp_dep_total [OF p, of "a_tmp_deps a"] obtain st' where
    s: "foldM reg_tmp_dep_step (a_tmp_deps a) ?st1 = Inr st'"
       "stmt_graph (this st') = stmt_graph (this ?st1)"
    by blast
  have "stmt_graph (this ?st1) = stmt_graph (stmt_graph_add_edge (this st) src cur (reg_edge_labels conf ?v))"
    by (simp add: reg_read_step_def)
  with e s show ?thesis by simp
qed

lemma new_statement_simps [simp]:
  "this (new_statement a st) = this st" "live_defs (new_statement a st) = live_defs st"
  "pv (new_statement a st) = pv st"
  by (simp_all add: new_statement_def)

lemma killed_at_new_statement [simp]:
  "killed_at var cur (new_statement a st) = killed_at var cur st"
  by (simp add: killed_at_def)

lemma track_action_reg:
  "a_type a = Reg \<Longrightarrow>
   track_action conf a st = track_reg conf a (current_code_location a) (new_statement a st)"
  by (simp add: track_action_def new_statement_def Let_def)

lemma track_action_mem:
  "a_type a = Mem \<Longrightarrow>
   track_action conf a st = track_mem conf a (current_code_location a) (new_statement a st)"
  by (simp add: track_action_def new_statement_def Let_def)

text \<open>
  C1: a write kills. \<^verbatim>\<open>_kill\<close> binds the variable to the singleton of the location; after
  the tracker has processed a register write, the register variable has exactly that
  one reaching definition, and after a memory write that it processed without raising,
  so has the memory variable of every address written. Hence for two writes of a
  register followed by a read of it, whatever the tracker state before, the statement
  graph after the three actions is the graph before with the one edge from the second
  write to the read inserted: the first write is not a source.
\<close>

theorem kill_on_write:
  "reaching_set (fst (kill self defs var loc)) (snd (kill self defs var loc)) var = Some [loc] \<and>
   (a_type a = Reg \<and> a_action a = Write \<longrightarrow>
      (\<exists>st'. track_action conf a st = Inr st' \<and>
         reaching_set (this st') (live_defs st')
           (SimRegisterVariable (a_offset a) (ast_size (a_data a))) =
         Some [current_code_location a])) \<and>
   (a_type a = Mem \<and> a_action a = Write \<and> ad \<in> set (mem_addr_list a) \<and>
    track_action conf a st = Inr st' \<longrightarrow>
      reaching_set (this st') (live_defs st') (SimMemoryVariable ad (ast_size (a_data a))) =
      Some [current_code_location a]) \<and>
   (a_type w1 = Reg \<and> a_action w1 = Write \<and> a_type w2 = Reg \<and> a_action w2 = Write \<and>
    a_type r = Reg \<and> a_action r = Read \<and>
    a_offset w1 = a_offset r \<and> ast_size (a_data w1) = ast_size (a_data r) \<and>
    a_offset w2 = a_offset r \<and> ast_size (a_data w2) = ast_size (a_data r) \<longrightarrow>
      (\<exists>st3. foldM (track_action conf) [w1, w2, r] st = Inr st3 \<and>
         stmt_graph (this st3) =
           stmt_graph (stmt_graph_add_edge (this st)
             (current_code_location w2) (current_code_location r)
             (reg_edge_labels conf (SimRegisterVariable (a_offset r) (ast_size (a_data r)))))))"
proof (intro conjI impI)
  show "reaching_set (fst (kill self defs var loc)) (snd (kill self defs var loc)) var = Some [loc]"
    by (rule reaching_set_kill)
next
  assume "a_type a = Reg \<and> a_action a = Write"
  with track_reg_write_kills [of a conf "current_code_location a" "new_statement a st"]
  show "\<exists>st'. track_action conf a st = Inr st' \<and>
         reaching_set (this st') (live_defs st')
           (SimRegisterVariable (a_offset a) (ast_size (a_data a))) =
         Some [current_code_location a]"
    by (auto simp: track_action_reg dest: killed_at_reaching)
next
  assume h: "a_type a = Mem \<and> a_action a = Write \<and> ad \<in> set (mem_addr_list a) \<and>
    track_action conf a st = Inr st'"
  then have "track_mem conf a (current_code_location a) (new_statement a st) = Inr st'"
    using track_action_mem [of a conf st] by simp
  then have "foldM (track_mem_addr conf a (current_code_location a)) (mem_addr_list a)
      (new_statement a st) = Inr st'"
    by (simp add: track_mem_def)
  from track_mem_write [OF this] h
  show "reaching_set (this st') (live_defs st') (SimMemoryVariable ad (ast_size (a_data a))) =
      Some [current_code_location a]"
    by (simp add: killed_at_reaching)
next
  assume h: "a_type w1 = Reg \<and> a_action w1 = Write \<and> a_type w2 = Reg \<and> a_action w2 = Write \<and>
    a_type r = Reg \<and> a_action r = Read \<and>
    a_offset w1 = a_offset r \<and> ast_size (a_data w1) = ast_size (a_data r) \<and>
    a_offset w2 = a_offset r \<and> ast_size (a_data w2) = ast_size (a_data r)"
  let ?v = "SimRegisterVariable (a_offset r) (ast_size (a_data r))"
  from h track_reg_write_kills [of w1 conf "current_code_location w1" "new_statement w1 st"]
  obtain st1 where 1: "track_action conf w1 st = Inr st1"
    "stmt_graph (this st1) = stmt_graph (this st)"
    by (auto simp: track_action_reg)
  from h track_reg_write_kills [of w2 conf "current_code_location w2" "new_statement w2 st1"]
  obtain st2 where 2: "track_action conf w2 st1 = Inr st2"
    "stmt_graph (this st2) = stmt_graph (this st1)" "pv st2 \<noteq> None"
    "killed_at ?v (current_code_location w2) st2"
    by (auto simp: track_action_reg)
  from h 2 track_reg_read_edge [of r "new_statement r st2" "current_code_location w2" conf
      "current_code_location r"]
  obtain st3 where 3: "track_action conf r st2 = Inr st3"
    "stmt_graph (this st3) = stmt_graph (stmt_graph_add_edge (this st2)
        (current_code_location w2) (current_code_location r) (reg_edge_labels conf ?v))"
    by (auto simp: track_action_reg)
  have "stmt_graph (stmt_graph_add_edge (this st2) x y l) = stmt_graph (stmt_graph_add_edge (this st) x y l)"
    for x y l
    using 1(2) 2(2) by (simp add: stmt_graph_add_edge_def)
  with 1 2 3 show "\<exists>st3. foldM (track_action conf) [w1, w2, r] st = Inr st3 \<and>
         stmt_graph (this st3) =
           stmt_graph (stmt_graph_add_edge (this st)
             (current_code_location w2) (current_code_location r)
             (reg_edge_labels conf ?v))"
    by simp
qed


lemmas example_defs = no_deps_def reg_action_def mem_write_def loc_a_def loc_b_def rax_def
  plain_conf_def reg_labels_def empty_ddg_def DiGraph_def init_tracker_def

theorem kill_on_write_witness:
  "reaching_set (fst (kill empty_ddg [] rax loc_a)) (snd (kill empty_ddg [] rax loc_a)) rax
     = Some [loc_a] \<and>
   (\<exists>st'. track_action plain_conf (reg_action Write 3 0x400004) (init_tracker empty_ddg []) = Inr st' \<and>
      reaching_set (this st') (live_defs st') rax = Some [loc_a]) \<and>
   (\<exists>st'. track_action plain_conf mem_write (init_tracker empty_ddg []) = Inr st' \<and>
      reaching_set (this st') (live_defs st') (SimMemoryVariable 0x7fff0000 8) = Some [loc_a]) \<and>
   (\<exists>st3. foldM (track_action plain_conf)
       [reg_action Write 1 0x400001, reg_action Write 3 0x400004, reg_action Read 7 0x400009]
       (init_tracker empty_ddg []) = Inr st3 \<and>
      stmt_graph (this st3) = \<lparr>nodes = [loc_a, loc_b], adj = [(loc_a, loc_b) \<mapsto> reg_labels]\<rparr>)"
proof -
  let ?w1 = "reg_action Write 1 0x400001" and ?w2 = "reg_action Write 3 0x400004"
  let ?r = "reg_action Read 7 0x400009" and ?st = "init_tracker empty_ddg []"
  have m: "\<exists>st'. track_action plain_conf mem_write ?st = Inr st'"
    by (simp add: track_action_def track_mem_def track_mem_addr_def mem_access_def
        mem_addr_list_def kill_def new_statement_def current_code_location_def example_defs
        Let_def)
  then obtain stm where stm: "track_action plain_conf mem_write ?st = Inr stm" ..
  have c: "current_code_location ?w2 = loc_a" "current_code_location mem_write = loc_a"
    "current_code_location ?r = loc_b"
    by (simp_all add: current_code_location_def example_defs)
  have g: "stmt_graph (stmt_graph_add_edge (this ?st) loc_a loc_b
        (reg_edge_labels plain_conf (SimRegisterVariable 16 8)))
      = \<lparr>nodes = [loc_a, loc_b], adj = [(loc_a, loc_b) \<mapsto> reg_labels]\<rparr>"
    by (simp add: stmt_graph_add_edge_def has_edge_def add_edge_def add_node_def
        reg_edge_labels_def example_defs)
  note t = kill_on_write [where self = empty_ddg and defs = "[]" and var = rax and loc = loc_a
      and a = ?w2 and conf = plain_conf and st = ?st and ?w1.0 = ?w1 and ?w2.0 = ?w2 and r = ?r]
  note t2 = kill_on_write [where a = mem_write and ad = "0x7fff0000" and conf = plain_conf
      and st = ?st and st' = stm]
  have 1: "reaching_set (fst (kill empty_ddg [] rax loc_a)) (snd (kill empty_ddg [] rax loc_a)) rax
     = Some [loc_a]" using t by blast
  have 2: "\<exists>st'. track_action plain_conf ?w2 ?st = Inr st' \<and>
      reaching_set (this st') (live_defs st') rax = Some [loc_a]"
    using t c by (simp add: example_defs)
  have "reaching_set (this stm) (live_defs stm) (SimMemoryVariable 0x7fff0000 8) = Some [loc_a]"
    using t2 stm c by (simp add: mem_addr_list_def example_defs)
  with stm have 3: "\<exists>st'. track_action plain_conf mem_write ?st = Inr st' \<and>
      reaching_set (this st') (live_defs st') (SimMemoryVariable 0x7fff0000 8) = Some [loc_a]"
    by blast
  have 4: "\<exists>st3. foldM (track_action plain_conf) [?w1, ?w2, ?r] ?st = Inr st3 \<and>
      stmt_graph (this st3) = \<lparr>nodes = [loc_a, loc_b], adj = [(loc_a, loc_b) \<mapsto> reg_labels]\<rparr>"
  proof -
    have "a_type ?w1 = Reg \<and> a_action ?w1 = Write \<and> a_type ?w2 = Reg \<and> a_action ?w2 = Write \<and>
      a_type ?r = Reg \<and> a_action ?r = Read \<and>
      a_offset ?w1 = a_offset ?r \<and> ast_size (a_data ?w1) = ast_size (a_data ?r) \<and>
      a_offset ?w2 = a_offset ?r \<and> ast_size (a_data ?w2) = ast_size (a_data ?r)"
      by (simp add: example_defs)
    with t have "\<exists>st3. foldM (track_action plain_conf) [?w1, ?w2, ?r] ?st = Inr st3 \<and>
         stmt_graph (this st3) =
           stmt_graph (stmt_graph_add_edge (this ?st)
             (current_code_location ?w2) (current_code_location ?r)
             (reg_edge_labels plain_conf (SimRegisterVariable (a_offset ?r) (ast_size (a_data ?r)))))"
      by blast
    moreover have "a_offset ?r = 16" "ast_size (a_data ?r) = 8" by (simp_all add: example_defs)
    ultimately show ?thesis using c g by simp
  qed
  from 1 2 3 4 show ?thesis by blast
qed

section \<open>The simplifier\<close>

lemma labelled_Nil [simp]: "labelled h [] = []"
  by (simp add: labelled_def map_filter_simps)

lemma labelled_Cons [simp]:
  "labelled h (x # xs) = (case h x of None \<Rightarrow> labelled h xs | Some d \<Rightarrow> (x, d) # labelled h xs)"
  by (simp add: labelled_def map_filter_simps split: option.splits)

lemma fst_set_labelled: "fst ` set (labelled h xs) = {u \<in> set xs. h u \<noteq> None}"
  by (induction xs) (auto split: option.splits)

lemma map_of_labelled: "map_of (labelled h xs) u = (if u \<in> set xs then h u else None)"
  by (induction xs) (auto split: option.splits)

lemma distinct_labelled: "distinct xs \<Longrightarrow> distinct (map fst (labelled h xs))"
proof (induction xs)
  case Nil
  then show ?case by simp
next
  case (Cons x xs)
  have "x \<notin> fst ` set (labelled h xs)" using Cons.prems by (simp add: fst_set_labelled)
  with Cons show ?case by (auto split: option.splits)
qed

lemma in_edges_labelled:
  "in_edges G T = map (\<lambda>x. (fst x, T, snd x)) (labelled (\<lambda>u. adj G (u, T)) (nodes G))"
  by (simp add: in_edges_def labelled_def map_filter_def option.map_comp comp_def
      option.map_sel)

lemma out_edges_labelled:
  "out_edges G T = map (\<lambda>x. (T, fst x, snd x)) (labelled (\<lambda>v. adj G (T, v)) (nodes G))"
  by (simp add: out_edges_def labelled_def map_filter_def option.map_comp comp_def
      option.map_sel)

lemma foldM_map: "foldM f (map h xs) s = foldM (\<lambda>x. f (h x)) xs s"
  by (induction xs arbitrary: s) (auto split: sum.splits)

lemma foldM_remove_edges_ok:
  "distinct ks \<Longrightarrow> \<forall>k \<in> set ks. adj G k \<noteq> None \<Longrightarrow>
   foldM (\<lambda>k g. remove_edge g (fst k) (snd k)) ks G =
     Inr (G\<lparr>adj := (\<lambda>k. if k \<in> set ks then None else adj G k)\<rparr>)"
proof (induction ks arbitrary: G)
  case Nil
  then show ?case by simp
next
  case (Cons k ks)
  let ?G1 = "G\<lparr>adj := (adj G)(k := None)\<rparr>"
  have 1: "remove_edge G (fst k) (snd k) = Inr ?G1"
    using Cons.prems by (simp add: remove_edge_def)
  have "\<forall>k' \<in> set ks. adj ?G1 k' \<noteq> None" using Cons.prems by auto
  with Cons.IH [of ?G1] Cons.prems
  have "foldM (\<lambda>k g. remove_edge g (fst k) (snd k)) ks ?G1 =
     Inr (?G1\<lparr>adj := (\<lambda>k'. if k' \<in> set ks then None else adj ?G1 k')\<rparr>)"
    by simp
  moreover have "(\<lambda>k'. if k' \<in> set ks then None else adj ?G1 k')
      = (\<lambda>k'. if k' \<in> set (k # ks) then None else adj G k')"
    by (auto simp: fun_eq_iff)
  ultimately show ?case using 1 by simp
qed

lemma foldM_remove_edges_fail:
  "\<exists>k \<in> set ks. adj G k = None \<Longrightarrow>
   foldM (\<lambda>k g. remove_edge g (fst k) (snd k)) ks G = Inl NetworkXError"
proof (induction ks arbitrary: G)
  case Nil
  then show ?case by simp
next
  case (Cons k ks)
  show ?case
  proof (cases "adj G k")
    case None
    then show ?thesis by (simp add: remove_edge_def)
  next
    case (Some d)
    let ?G1 = "G\<lparr>adj := (adj G)(k := None)\<rparr>"
    have 1: "remove_edge G (fst k) (snd k) = Inr ?G1"
      using Some by (simp add: remove_edge_def)
    from Cons.prems Some have "\<exists>k' \<in> set ks. adj ?G1 k' = None" by auto
    from Cons.IH [OF this] 1 show ?thesis by simp
  qed
qed

lemma fold_splice_inner:
  assumes "p \<noteq> T" and "T \<notin> fst ` set ol" and "distinct (map fst ol)"
    and "p \<in> set (nodes g)" and "fst ` set ol \<subseteq> set (nodes g)"
  shows "fold (splice T (p, T, din)) (map (\<lambda>x. (T, fst x, snd x)) ol) g =
         g\<lparr>adj := (\<lambda>k. if fst k = p then
                          (case map_of ol (snd k) of
                             None \<Rightarrow> adj g k
                           | Some dout \<Rightarrow> Some (old_labels g k ++ (din ++ dout)))
                        else adj g k)\<rparr>"
  using assms(2-)
proof (induction ol arbitrary: g)
  case Nil
  then show ?case by (simp cong: if_cong)
next
  case (Cons x ol)
  obtain s dout where x: "x = (s, dout)" by (cases x)
  let ?g1 = "g\<lparr>adj := (adj g)((p, s) \<mapsto> old_labels g (p, s) ++ (din ++ dout))\<rparr>"
  have sT: "s \<noteq> T" and sn: "s \<in> set (nodes g)" and fresh: "s \<notin> fst ` set ol"
    using Cons.prems x by auto
  have 1: "splice T (p, T, din) (T, s, dout) g = ?g1"
    using assms(1) sT sn Cons.prems(3)
    by (simp add: splice_def add_edge_def add_node_def old_labels_def)
  have 2: "fold (splice T (p, T, din)) (map (\<lambda>x. (T, fst x, snd x)) ol) ?g1 =
         ?g1\<lparr>adj := (\<lambda>k. if fst k = p then
                          (case map_of ol (snd k) of
                             None \<Rightarrow> adj ?g1 k
                           | Some dout \<Rightarrow> Some (old_labels ?g1 k ++ (din ++ dout)))
                        else adj ?g1 k)\<rparr>"
    using Cons.prems by (intro Cons.IH) auto
  have 3: "map_of ol s = None" using fresh by (simp add: map_of_eq_None_iff)
  have "(\<lambda>k. if fst k = p then
                (case map_of ol (snd k) of
                   None \<Rightarrow> adj ?g1 k
                 | Some dout \<Rightarrow> Some (old_labels ?g1 k ++ (din ++ dout)))
              else adj ?g1 k)
      = (\<lambda>k. if fst k = p then
                (case map_of (x # ol) (snd k) of
                   None \<Rightarrow> adj g k
                 | Some dout \<Rightarrow> Some (old_labels g k ++ (din ++ dout)))
              else adj g k)"
    using 3 x by (auto simp: fun_eq_iff old_labels_def split: option.splits)
  with 1 2 x show ?case by simp
qed

lemma fold_splice_outer:
  assumes "T \<notin> fst ` set ol" and "distinct (map fst ol)" and "fst ` set ol \<subseteq> set (nodes g)"
    and "T \<notin> fst ` set il" and "distinct (map fst il)" and "fst ` set il \<subseteq> set (nodes g)"
  shows "fold (\<lambda>e_in. fold (splice T e_in) (map (\<lambda>x. (T, fst x, snd x)) ol))
           (map (\<lambda>x. (fst x, T, snd x)) il) g =
         g\<lparr>adj := (\<lambda>k. case (map_of il (fst k), map_of ol (snd k)) of
                          (Some din, Some dout) \<Rightarrow> Some (old_labels g k ++ (din ++ dout))
                        | _ \<Rightarrow> adj g k)\<rparr>"
  using assms(4-) assms(3)
proof (induction il arbitrary: g)
  case Nil
  then show ?case by simp
next
  case (Cons x il)
  obtain p din where x: "x = (p, din)" by (cases x)
  let ?g1 = "g\<lparr>adj := (\<lambda>k. if fst k = p then
                          (case map_of ol (snd k) of
                             None \<Rightarrow> adj g k
                           | Some dout \<Rightarrow> Some (old_labels g k ++ (din ++ dout)))
                        else adj g k)\<rparr>"
  have pT: "p \<noteq> T" and pn: "p \<in> set (nodes g)" and fresh: "p \<notin> fst ` set il"
    using Cons.prems x by auto
  have 1: "fold (splice T (p, T, din)) (map (\<lambda>x. (T, fst x, snd x)) ol) g = ?g1"
    by (rule fold_splice_inner [OF pT assms(1,2) pn Cons.prems(4)])
  have 2: "fold (\<lambda>e_in. fold (splice T e_in) (map (\<lambda>x. (T, fst x, snd x)) ol))
           (map (\<lambda>x. (fst x, T, snd x)) il) ?g1 =
         ?g1\<lparr>adj := (\<lambda>k. case (map_of il (fst k), map_of ol (snd k)) of
                          (Some din, Some dout) \<Rightarrow> Some (old_labels ?g1 k ++ (din ++ dout))
                        | _ \<Rightarrow> adj ?g1 k)\<rparr>"
    using Cons.prems by (intro Cons.IH) auto
  have 3: "map_of il p = None" using fresh by (simp add: map_of_eq_None_iff)
  have "(\<lambda>k. case (map_of il (fst k), map_of ol (snd k)) of
                          (Some din, Some dout) \<Rightarrow> Some (old_labels ?g1 k ++ (din ++ dout))
                        | _ \<Rightarrow> adj ?g1 k)
     = (\<lambda>k. case (map_of (x # il) (fst k), map_of ol (snd k)) of
                          (Some din, Some dout) \<Rightarrow> Some (old_labels g k ++ (din ++ dout))
                        | _ \<Rightarrow> adj g k)"
    using 3 x by (auto simp: fun_eq_iff old_labels_def split: option.splits)
  with 1 2 x show ?case by simp
qed

text \<open>
  The removal of a node, as the source does it edge by edge, is the graph \<open>spliced\<close>; it
  raises when the node has an edge to itself (the edge is in both lists and is removed
  twice) or is not in the graph.
\<close>

lemma remove_tmp_node_eq:
  assumes wf: "wf_digraph G"
  shows "remove_tmp_node T G =
           (if T \<in> set (nodes G) \<and> adj G (T, T) = None then Inr (spliced T G)
            else Inl NetworkXError)"
proof -
  define il where "il = labelled (\<lambda>u. adj G (u, T)) (nodes G)"
  define ol where "ol = labelled (\<lambda>v. adj G (T, v)) (nodes G)"
  define G1 where "G1 = G\<lparr>adj := (\<lambda>k. if snd k = T then None else adj G k)\<rparr>"
  define G2 where "G2 = G\<lparr>adj := (\<lambda>k. if fst k = T \<or> snd k = T then None else adj G k)\<rparr>"
  have dn: "distinct (nodes G)" and
    inn: "\<And>u v. adj G (u, v) \<noteq> None \<Longrightarrow> u \<in> set (nodes G) \<and> v \<in> set (nodes G)"
    using wf by (auto simp: wf_digraph_def)
  have ins: "in_edges G T = map (\<lambda>x. (fst x, T, snd x)) il"
    and outs: "out_edges G T = map (\<lambda>x. (T, fst x, snd x)) ol"
    by (simp_all add: il_def ol_def in_edges_labelled out_edges_labelled)
  have il_fst: "fst ` set il = {u. adj G (u, T) \<noteq> None}"
    using inn by (auto simp: il_def fst_set_labelled)
  have ol_fst: "fst ` set ol = {v. adj G (T, v) \<noteq> None}"
    using inn by (auto simp: ol_def fst_set_labelled)
  have il_d: "distinct (map fst il)" and ol_d: "distinct (map fst ol)"
    using dn by (simp_all add: il_def ol_def distinct_labelled)
  have il_m: "map_of il u = adj G (u, T)" for u
    using inn [of u T] by (cases "adj G (u, T)") (auto simp: il_def map_of_labelled)
  have ol_m: "map_of ol v = adj G (T, v)" for v
    using inn [of T v] by (cases "adj G (T, v)") (auto simp: ol_def map_of_labelled)
  have il_mem: "adj G (fst x, T) \<noteq> None" if "x \<in> set il" for x
  proof -
    from that have "fst x \<in> fst ` set il" by (rule imageI)
    then show ?thesis unfolding il_fst by simp
  qed
  have ol_mem: "adj G (T, fst x) \<noteq> None" if "x \<in> set ol" for x
  proof -
    from that have "fst x \<in> fst ` set ol" by (rule imageI)
    then show ?thesis unfolding ol_fst by simp
  qed
  have k1d: "distinct (map (\<lambda>x. (fst x, T)) il)"
    using il_d by (simp add: distinct_map inj_on_def)
  have k1s: "set (map (\<lambda>x. (fst x, T)) il) = {k. snd k = T \<and> adj G k \<noteq> None}"
  proof -
    have "set (map (\<lambda>x. (fst x, T)) il) = (\<lambda>u. (u, T)) ` (fst ` set il)"
      by (simp add: image_image)
    also have "\<dots> = {k. snd k = T \<and> adj G k \<noteq> None}"
      unfolding il_fst by auto
    finally show ?thesis .
  qed
  have s1: "foldM (\<lambda>e g. remove_edge g (fst e) T) (in_edges G T) G = Inr G1"
  proof -
    have "foldM (\<lambda>e g. remove_edge g (fst e) T) (in_edges G T) G =
          foldM (\<lambda>k g. remove_edge g (fst k) (snd k)) (map (\<lambda>x. (fst x, T)) il) G"
      by (simp add: ins foldM_map)
    also have "\<dots> = Inr (G\<lparr>adj := (\<lambda>k. if k \<in> set (map (\<lambda>x. (fst x, T)) il) then None
                                     else adj G k)\<rparr>)"
      by (rule foldM_remove_edges_ok [OF k1d]) (use il_mem in auto)
    also have "(\<lambda>k. if k \<in> set (map (\<lambda>x. (fst x, T)) il) then None else adj G k)
        = (\<lambda>k. if snd k = T then None else adj G k)"
      unfolding k1s by (auto simp: fun_eq_iff)
    finally show ?thesis by (simp add: G1_def)
  qed
  have k2d: "distinct (map (\<lambda>x. (T, fst x)) ol)"
    using ol_d by (simp add: distinct_map inj_on_def)
  have k2s: "set (map (\<lambda>x. (T, fst x)) ol) = {k. fst k = T \<and> adj G k \<noteq> None}"
  proof -
    have "set (map (\<lambda>x. (T, fst x)) ol) = (\<lambda>v. (T, v)) ` (fst ` set ol)"
      by (simp add: image_image)
    also have "\<dots> = {k. fst k = T \<and> adj G k \<noteq> None}"
      unfolding ol_fst by auto
    finally show ?thesis .
  qed
  have s2_eq: "foldM (\<lambda>e g. remove_edge g T (fst (snd e))) (out_edges G T) G1 =
          foldM (\<lambda>k g. remove_edge g (fst k) (snd k)) (map (\<lambda>x. (T, fst x)) ol) G1"
    by (simp add: outs foldM_map)
  show ?thesis
  proof (cases "adj G (T, T) = None")
    case False
    have "(T, T) \<in> set (map (\<lambda>x. (T, fst x)) ol)" unfolding k2s using False by simp
    moreover have "adj G1 (T, T) = None" by (simp add: G1_def)
    ultimately have "foldM (\<lambda>k g. remove_edge g (fst k) (snd k)) (map (\<lambda>x. (T, fst x)) ol) G1
        = Inl NetworkXError"
      by (intro foldM_remove_edges_fail) blast
    with s1 s2_eq False show ?thesis
      by (simp add: remove_tmp_node_def)
  next
    case True
    have ok: "\<forall>k \<in> set (map (\<lambda>x. (T, fst x)) ol). adj G1 k \<noteq> None"
    proof
      fix k assume "k \<in> set (map (\<lambda>x. (T, fst x)) ol)"
      then have "fst k = T \<and> adj G k \<noteq> None" unfolding k2s by simp
      with True show "adj G1 k \<noteq> None" by (cases k) (auto simp: G1_def)
    qed
    have "foldM (\<lambda>k g. remove_edge g (fst k) (snd k)) (map (\<lambda>x. (T, fst x)) ol) G1
        = Inr (G1\<lparr>adj := (\<lambda>k. if k \<in> set (map (\<lambda>x. (T, fst x)) ol) then None else adj G1 k)\<rparr>)"
      by (rule foldM_remove_edges_ok [OF k2d ok])
    also have "(\<lambda>k. if k \<in> set (map (\<lambda>x. (T, fst x)) ol) then None else adj G1 k)
        = (\<lambda>k. if fst k = T \<or> snd k = T then None else adj G k)"
      unfolding k2s by (auto simp: fun_eq_iff G1_def)
    finally have s2: "foldM (\<lambda>e g. remove_edge g T (fst (snd e))) (out_edges G T) G1 = Inr G2"
      using s2_eq by (simp add: G1_def G2_def)
    have Tol: "T \<notin> fst ` set ol" and Til: "T \<notin> fst ` set il"
      using True by (simp_all add: ol_fst il_fst)
    have sub: "fst ` set ol \<subseteq> set (nodes G2)" "fst ` set il \<subseteq> set (nodes G2)"
      using inn by (auto simp: ol_fst il_fst G2_def)
    have s3: "fold (\<lambda>e_in g. fold (splice T e_in) (out_edges G T) g) (in_edges G T) G2 =
         G2\<lparr>adj := (\<lambda>k. case (map_of il (fst k), map_of ol (snd k)) of
                          (Some din, Some dout) \<Rightarrow> Some (old_labels G2 k ++ (din ++ dout))
                        | _ \<Rightarrow> adj G2 k)\<rparr>"
      unfolding ins outs by (rule fold_splice_outer [OF Tol ol_d sub(1) Til il_d sub(2)])
    define F where "F = (\<lambda>k. case (map_of il (fst k), map_of ol (snd k)) of
                          (Some din, Some dout) \<Rightarrow> Some (old_labels G2 k ++ (din ++ dout))
                        | _ \<Rightarrow> adj G2 k)"
    have e: "remove_tmp_node T G = remove_node (G2\<lparr>adj := F\<rparr>) T"
      unfolding remove_tmp_node_def Let_def s1 ebind_simps s2 s3 F_def ..
    show ?thesis
    proof (cases "T \<in> set (nodes G)")
      case False
      then show ?thesis
        unfolding e by (simp add: remove_node_def G2_def)
    next
      case Tn: True
      have "(\<lambda>(u, v). if u = T \<or> v = T then None else F (u, v)) = adj (spliced T G)"
        by (auto simp: fun_eq_iff F_def spliced_def il_m ol_m old_labels_def G2_def
            split: option.splits)
      then have "remove_node (G2\<lparr>adj := F\<rparr>) T = Inr (spliced T G)"
        using Tn by (simp add: remove_node_def spliced_def G2_def cong: if_cong)
      with e Tn True show ?thesis by simp
    qed
  qed
qed

lemma wf_spliced: "wf_digraph G \<Longrightarrow> wf_digraph (spliced T G)"
  unfolding wf_digraph_def spliced_def
  by (auto simp: distinct_removeAll split: option.splits if_splits)

lemma remove_tmp_node_Inr:
  assumes "wf_digraph G" and "remove_tmp_node T G = Inr G'"
  shows "G' = spliced T G" and "T \<in> set (nodes G)" and "adj G (T, T) = None"
  using assms(2) unfolding remove_tmp_node_eq [OF assms(1)]
  by (auto split: if_splits)

lemma simplify_in_order_nodes:
  "wf_digraph G \<Longrightarrow> foldM remove_tmp_node Ts G = Inr G' \<Longrightarrow>
   wf_digraph G' \<and> nodes G' = filter (\<lambda>n. n \<notin> set Ts) (nodes G)"
proof (induction Ts arbitrary: G)
  case Nil
  then show ?case by simp
next
  case (Cons T Ts)
  from Cons.prems(2) obtain G1 where g1: "remove_tmp_node T G = Inr G1"
    "foldM remove_tmp_node Ts G1 = Inr G'"
    by (auto split: sum.splits)
  from remove_tmp_node_Inr(1) [OF Cons.prems(1) g1(1)] have e: "G1 = spliced T G" .
  then have w: "wf_digraph G1" using Cons.prems(1) by (simp add: wf_spliced)
  have "nodes G1 = filter (\<lambda>n. n \<noteq> T) (nodes G)"
    by (simp add: e spliced_def removeAll_filter_not_eq) metis
  with Cons.IH [OF w g1(2)] show ?case
    by (auto intro: filter_cong)
qed

lemma simplify_chain:
  assumes "is_temporary T" "\<not> is_temporary A" "\<not> is_temporary B" "A \<noteq> B"
  shows "simplify_data_graph (chain_graph A T B din dout) =
           Inr \<lparr>nodes = [A, B], adj = [(A, B) \<mapsto> din ++ dout]\<rparr>"
proof -
  have ne: "A \<noteq> T" "B \<noteq> T" using assms by auto
  have w: "wf_digraph (chain_graph A T B din dout)"
    using ne assms(4) by (auto simp: wf_digraph_def chain_graph_def split: if_splits)
  have "simplify_data_graph (chain_graph A T B din dout) =
      remove_tmp_node T (chain_graph A T B din dout)"
    using assms by (simp add: simplify_data_graph_def simplify_in_order_def chain_graph_def
        split: sum.splits)
  also have "\<dots> = Inr (spliced T (chain_graph A T B din dout))"
    unfolding remove_tmp_node_eq [OF w] using ne by (simp add: chain_graph_def)
  also have "spliced T (chain_graph A T B din dout) = \<lparr>nodes = [A, B], adj = [(A, B) \<mapsto> din ++ dout]\<rparr>"
    using ne assms(4) by (auto simp: spliced_def chain_graph_def fun_eq_iff)
  finally show ?thesis .
qed

text \<open>
  C4, as amended: whenever the simplifier returns, the simplified graph has no temporary
  node (its nodes are the other nodes of the input). Each removal of a node \<open>T\<close> gives
  every pair of an in-edge \<open>(p, T)\<close> and an out-edge \<open>(T, s)\<close> the direct edge \<open>(p, s)\<close>, whose
  labels are the labels of an edge \<open>(p, s)\<close> that was already there, overlaid by the
  in-edge's, overlaid by the out-edge's. A chain \<open>A \<rightarrow> T \<rightarrow> B\<close> becomes the single edge
  \<open>A \<rightarrow> B\<close> with the labels of both edges.
\<close>

theorem simplify_splices_temporaries:
  "(wf_digraph G \<and> simplify_data_graph G = Inr G' \<longrightarrow>
      (\<forall>n \<in> set (nodes G'). \<not> is_temporary n) \<and>
      nodes G' = filter (\<lambda>n. \<not> is_temporary n) (nodes G)) \<and>
   (wf_digraph H \<and> remove_tmp_node T H = Inr H' \<and>
    adj H (p, T) = Some din \<and> adj H (T, s) = Some dout \<and> p \<noteq> T \<and> s \<noteq> T \<longrightarrow>
      adj H' (p, s) =
        Some ((case adj H (p, s) of None \<Rightarrow> Map.empty | Some d \<Rightarrow> d) ++ (din ++ dout))) \<and>
   (is_temporary T \<and> \<not> is_temporary A \<and> \<not> is_temporary B \<and> A \<noteq> B \<longrightarrow>
      simplify_data_graph (chain_graph A T B din dout) =
        Inr \<lparr>nodes = [A, B], adj = [(A, B) \<mapsto> din ++ dout]\<rparr>)"
proof (intro conjI impI)
  assume h: "wf_digraph G \<and> simplify_data_graph G = Inr G'"
  then have "nodes G' = filter (\<lambda>n. n \<notin> set (filter is_temporary (nodes G))) (nodes G)"
    using simplify_in_order_nodes [of G "filter is_temporary (nodes G)" G']
    by (simp add: simplify_data_graph_def simplify_in_order_def)
  then show n: "nodes G' = filter (\<lambda>n. \<not> is_temporary n) (nodes G)"
    by (auto intro: filter_cong)
  then show "\<forall>n \<in> set (nodes G'). \<not> is_temporary n" by simp
next
  assume h: "wf_digraph H \<and> remove_tmp_node T H = Inr H' \<and>
    adj H (p, T) = Some din \<and> adj H (T, s) = Some dout \<and> p \<noteq> T \<and> s \<noteq> T"
  then have "wf_digraph H" "remove_tmp_node T H = Inr H'" by simp_all
  from remove_tmp_node_Inr(1) [OF this] have "H' = spliced T H" .
  with h show "adj H' (p, s) =
        Some ((case adj H (p, s) of None \<Rightarrow> Map.empty | Some d \<Rightarrow> d) ++ (din ++ dout))"
    by (simp add: spliced_def)
next
  assume "is_temporary T \<and> \<not> is_temporary A \<and> \<not> is_temporary B \<and> A \<noteq> B"
  then show "simplify_data_graph (chain_graph A T B din dout) =
        Inr \<lparr>nodes = [A, B], adj = [(A, B) \<mapsto> din ++ dout]\<rparr>"
    by (simp add: simplify_chain)
qed

lemma outline_spliced:
  "outline (spliced T G) =
     (set (nodes G) - {T},
      {(p, s). p \<noteq> T \<and> s \<noteq> T \<and>
         ((p, s) \<in> dom (adj G) \<or> (p, T) \<in> dom (adj G) \<and> (T, s) \<in> dom (adj G))})"
  by (auto simp: outline_def spliced_def dom_def split: option.splits if_splits)

lemma outline_remove_tmp_node:
  "wf_digraph G \<Longrightarrow> map_sum id outline (remove_tmp_node T G) = remove_outline T (outline G)"
  by (simp add: remove_tmp_node_eq remove_outline_def outline_spliced)
     (auto simp: outline_def dom_def)

lemma outline_foldM:
  "wf_digraph G \<Longrightarrow>
   map_sum id outline (foldM remove_tmp_node Ts G) = foldM remove_outline Ts (outline G)"
proof (induction Ts arbitrary: G)
  case Nil
  then show ?case by simp
next
  case (Cons T Ts)
  show ?case
  proof (cases "remove_tmp_node T G")
    case (Inl e)
    with outline_remove_tmp_node [OF Cons.prems, of T] show ?thesis
      by (cases "remove_outline T (outline G)") auto
  next
    case (Inr G1)
    then have "G1 = spliced T G" using remove_tmp_node_Inr(1) [OF Cons.prems] by simp
    then have w: "wf_digraph G1" using Cons.prems by (simp add: wf_spliced)
    from outline_remove_tmp_node [OF Cons.prems, of T] Inr
    have "remove_outline T (outline G) = Inr (outline G1)" by simp
    with Cons.IH [OF w] Inr show ?thesis by simp
  qed
qed

lemma foldM_as_fold: "foldM f xs s = fold (\<lambda>x r. ebind r (f x)) xs (Inr s)"
proof -
  have inl: "fold (\<lambda>x r. ebind r (f x)) xs (Inl e) = Inl e" for xs e
    by (induction xs) simp_all
  show ?thesis
    by (induction xs arbitrary: s) (auto simp: inl split: sum.splits)
qed

lemma remove_outline_commute:
  "ebind (remove_outline x a) (remove_outline y) = ebind (remove_outline y a) (remove_outline x)"
proof (cases "x = y")
  case True
  then show ?thesis by simp
next
  case False
  obtain N E where a: "a = (N, E)" by (cases a)
  show ?thesis
  proof (cases "x \<in> N \<and> y \<in> N \<and> (x, x) \<notin> E \<and> (y, y) \<notin> E \<and> \<not> ((x, y) \<in> E \<and> (y, x) \<in> E)")
    case True
    then show ?thesis
      using False unfolding a remove_outline_def
      by (auto simp: set_eq_iff)
  next
    case False
    then show ?thesis
      using \<open>x \<noteq> y\<close> unfolding a remove_outline_def
      by (auto simp: ebind_def)
  qed
qed

lemma foldM_remove_outline_perm:
  assumes "mset xs = mset ys"
  shows "foldM remove_outline xs a = foldM remove_outline ys a"
proof -
  have "fold (\<lambda>x r. ebind r (remove_outline x)) xs = fold (\<lambda>x r. ebind r (remove_outline x)) ys"
  proof (rule fold_multiset_equiv [OF _ assms])
    fix x y :: 'a
    show "(\<lambda>r. ebind r (remove_outline x)) \<circ> (\<lambda>r. ebind r (remove_outline y)) =
          (\<lambda>r. ebind r (remove_outline y)) \<circ> (\<lambda>r. ebind r (remove_outline x))"
    proof (rule ext)
      fix r :: "error + 'a set \<times> ('a \<times> 'a) set"
      show "((\<lambda>r. ebind r (remove_outline x)) \<circ> (\<lambda>r. ebind r (remove_outline y))) r =
            ((\<lambda>r. ebind r (remove_outline y)) \<circ> (\<lambda>r. ebind r (remove_outline x))) r"
        by (cases r) (simp_all add: remove_outline_commute)
    qed
  qed
  then show ?thesis by (simp add: foldM_as_fold)
qed

text \<open>
  C5, as amended: for any two orders of removal, the simplifier either raises for both or
  returns for both, and then with the same nodes and the same edges; the labels of the
  edges are not part of the statement.
\<close>

theorem simplify_order_outline:
  assumes "wf_digraph G" and "mset order1 = mset order2"
  shows "map_sum id outline (simplify_in_order order1 G) =
         map_sum id outline (simplify_in_order order2 G)"
  using assms
  by (simp add: simplify_in_order_def outline_foldM foldM_remove_outline_perm [of order1 order2])

lemmas pv_defs = pv_A_def pv_T_def pv_B_def loc_a_def loc_b_def loc_c_def rax_def

lemma wf_shortcut_graph: "wf_digraph shortcut_graph"
  by (auto simp: wf_digraph_def shortcut_graph_def pv_defs split: if_splits)

lemma remove_shortcut: "remove_tmp_node pv_T shortcut_graph = Inr shortcut_simplified"
proof -
  have "spliced pv_T shortcut_graph = shortcut_simplified"
    by (auto simp: spliced_def shortcut_graph_def shortcut_simplified_def fun_eq_iff pv_defs)
  then show ?thesis
    unfolding remove_tmp_node_eq [OF wf_shortcut_graph]
    by (simp add: shortcut_graph_def pv_defs)
qed

lemma simplify_shortcut: "simplify_data_graph shortcut_graph = Inr shortcut_simplified"
proof -
  have "filter is_temporary (nodes shortcut_graph) = [pv_T]"
    by (simp add: shortcut_graph_def is_temporary_def pv_defs)
  then show ?thesis
    by (simp add: simplify_data_graph_def simplify_in_order_def remove_shortcut)
qed

text \<open>
  C4 as stated fails where the spliced edge is already in the graph: the direct edge
  keeps its label \<^verbatim>\<open>type\<close>, which neither the in-edge nor the out-edge has.
\<close>

theorem simplify_label_counterexample:
  "adj shortcut_graph (pv_A, pv_T) = Some Map.empty \<and>
   adj shortcut_graph (pv_T, pv_B) = Some Map.empty \<and>
   pv_A \<noteq> pv_T \<and> pv_B \<noteq> pv_T \<and>
   simplify_data_graph shortcut_graph = Inr shortcut_simplified \<and>
   adj shortcut_simplified (pv_A, pv_B) \<noteq> Some (Map.empty ++ Map.empty)"
  by (simp add: simplify_shortcut)
     (simp add: shortcut_graph_def shortcut_simplified_def pv_defs)

theorem simplify_splices_temporaries_witness:
  "wf_digraph shortcut_graph \<and>
   simplify_data_graph shortcut_graph = Inr shortcut_simplified \<and>
   nodes shortcut_simplified = [pv_A, pv_B] \<and>
   \<not> is_temporary pv_A \<and> \<not> is_temporary pv_B \<and>
   remove_tmp_node pv_T shortcut_graph = Inr shortcut_simplified \<and>
   adj shortcut_graph (pv_A, pv_T) = Some Map.empty \<and>
   adj shortcut_graph (pv_T, pv_B) = Some Map.empty \<and>
   adj shortcut_simplified (pv_A, pv_B) =
     Some ([Type \<mapsto> StrV ''mem_addr''] ++ (Map.empty ++ Map.empty)) \<and>
   is_temporary pv_T \<and> pv_A \<noteq> pv_B \<and>
   simplify_data_graph (chain_graph pv_A pv_T pv_B [Type \<mapsto> StrV ''reg''] [Count \<mapsto> IntV 0]) =
     Inr \<lparr>nodes = [pv_A, pv_B],
          adj = [(pv_A, pv_B) \<mapsto> [Type \<mapsto> StrV ''reg''] ++ [Count \<mapsto> IntV 0]]\<rparr>"
proof -
  note t = simplify_splices_temporaries [where G = shortcut_graph and G' = shortcut_simplified
      and H = shortcut_graph and H' = shortcut_simplified and T = pv_T and p = pv_A and s = pv_B
      and din = Map.empty and dout = Map.empty and A = pv_A and B = pv_B]
  note t2 = simplify_splices_temporaries [where T = pv_T and A = pv_A and B = pv_B
      and din = "[Type \<mapsto> StrV ''reg'']" and dout = "[Count \<mapsto> IntV 0]"]
  have e: "adj shortcut_graph (pv_A, pv_T) = Some Map.empty"
    "adj shortcut_graph (pv_T, pv_B) = Some Map.empty"
    "adj shortcut_graph (pv_A, pv_B) = Some [Type \<mapsto> StrV ''mem_addr'']"
    "pv_A \<noteq> pv_T" "pv_B \<noteq> pv_T" "pv_A \<noteq> pv_B"
    "is_temporary pv_T" "\<not> is_temporary pv_A" "\<not> is_temporary pv_B"
    by (simp_all add: shortcut_graph_def is_temporary_def pv_defs)
  have n: "nodes shortcut_simplified = [pv_A, pv_B]"
    using t wf_shortcut_graph simplify_shortcut e
    by (simp add: shortcut_graph_def)
  have l: "adj shortcut_simplified (pv_A, pv_B) =
     Some ([Type \<mapsto> StrV ''mem_addr''] ++ (Map.empty ++ Map.empty))"
    using t wf_shortcut_graph remove_shortcut e by simp
  have c: "simplify_data_graph (chain_graph pv_A pv_T pv_B [Type \<mapsto> StrV ''reg''] [Count \<mapsto> IntV 0]) =
     Inr \<lparr>nodes = [pv_A, pv_B],
          adj = [(pv_A, pv_B) \<mapsto> [Type \<mapsto> StrV ''reg''] ++ [Count \<mapsto> IntV 0]]\<rparr>"
    using t2 e by blast
  from wf_shortcut_graph simplify_shortcut remove_shortcut e n l c show ?thesis by blast
qed

lemmas st_defs = st_R_def st_C_def st_T1_def st_T2_def st_M_def loc_a_def loc_b_def rax_def

lemma track_store:
  "map_sum id (\<lambda>r. data_graph (fst r)) (track plain_conf empty_ddg store_state []) =
     Inr store_graph"
  apply (simp add: track_def store_state_def track_action_def new_statement_def
        track_reg_def track_reg_read_def track_reg_write_def track_tmp_def track_tmp_read_def
        track_tmp_write_def track_mem_def track_mem_addr_def mem_access_def mem_addr_list_def
        tmp_dep_step_def tmp_write_dep_step_def reg_read_step_def reg_tmp_dep_step_def
        def_lookup_def def_lookup_step_def variable_type_def kill_def
        stmt_graph_annotate_edges_def annotate_edge_def annotate_label_def
        dd_lookup_def dd_touch_def dd_append_def
        data_graph_add_edge_def data_graph_add_node_def stmt_graph_add_edge_def
        add_edge_def add_node_def has_edge_def current_code_location_def
        tmp_deps_obj_def tmp_write_def store_action_def add_def_edges_def
        example_defs Let_def store_graph_def st_defs)
  done

lemma wf_store_graph: "wf_digraph store_graph"
  by (auto simp: wf_digraph_def store_graph_def st_defs split: if_splits)

lemma remove_two:
  assumes "wf_digraph G" and "T1 \<in> set (nodes G)" and "adj G (T1, T1) = None"
    and "T2 \<in> set (nodes (spliced T1 G))" and "adj (spliced T1 G) (T2, T2) = None"
  shows "simplify_in_order [T1, T2] G = Inr (spliced T2 (spliced T1 G))"
  using assms
  by (simp add: simplify_in_order_def remove_tmp_node_eq wf_spliced)

lemma simplify_store_12:
  "simplify_in_order [st_T1, st_T2] store_graph = Inr (store_simplified ''mem_data'')"
proof -
  have "spliced st_T2 (spliced st_T1 store_graph) = store_simplified ''mem_data''"
    by (auto simp: spliced_def store_graph_def store_simplified_def fun_eq_iff st_defs)
  moreover have "simplify_in_order [st_T1, st_T2] store_graph =
      Inr (spliced st_T2 (spliced st_T1 store_graph))"
    by (rule remove_two [OF wf_store_graph])
       (simp_all add: spliced_def store_graph_def st_defs)
  ultimately show ?thesis by simp
qed

lemma simplify_store_21:
  "simplify_in_order [st_T2, st_T1] store_graph = Inr (store_simplified ''mem_addr'')"
proof -
  have "spliced st_T1 (spliced st_T2 store_graph) = store_simplified ''mem_addr''"
    by (auto simp: spliced_def store_graph_def store_simplified_def fun_eq_iff st_defs)
  moreover have "simplify_in_order [st_T2, st_T1] store_graph =
      Inr (spliced st_T1 (spliced st_T2 store_graph))"
    by (rule remove_two [OF wf_store_graph])
       (simp_all add: spliced_def store_graph_def st_defs)
  ultimately show ?thesis by simp
qed

text \<open>
  C5 as stated fails on the data graph of the store: the edge from the register to the
  memory cell is spliced through both temporaries, and its label \<^verbatim>\<open>type\<close> is the one of
  the temporary removed last.
\<close>

theorem simplify_order_counterexample:
  "map_sum id (\<lambda>r. data_graph (fst r)) (track plain_conf empty_ddg store_state []) =
     Inr store_graph \<and>
   filter is_temporary (nodes store_graph) = [st_T1, st_T2] \<and>
   simplify_in_order [st_T1, st_T2] store_graph = Inr (store_simplified ''mem_data'') \<and>
   simplify_in_order [st_T2, st_T1] store_graph = Inr (store_simplified ''mem_addr'') \<and>
   adj (store_simplified ''mem_data'') (st_R, st_M) = Some [Type \<mapsto> StrV ''mem_data''] \<and>
   adj (store_simplified ''mem_addr'') (st_R, st_M) = Some [Type \<mapsto> StrV ''mem_addr''] \<and>
   store_simplified ''mem_data'' \<noteq> store_simplified ''mem_addr''"
proof -
  have f: "filter is_temporary (nodes store_graph) = [st_T1, st_T2]"
    by (simp add: store_graph_def is_temporary_def st_defs)
  have a: "adj (store_simplified ''mem_data'') (st_R, st_M) = Some [Type \<mapsto> StrV ''mem_data'']"
    "adj (store_simplified ''mem_addr'') (st_R, st_M) = Some [Type \<mapsto> StrV ''mem_addr'']"
    by (simp_all add: store_simplified_def st_defs)
  have "[Type \<mapsto> StrV ''mem_data''] Type \<noteq> [Type \<mapsto> StrV ''mem_addr''] Type" by simp
  then have "[Type \<mapsto> StrV ''mem_data''] \<noteq> [Type \<mapsto> StrV ''mem_addr'']" by metis
  with a have "store_simplified ''mem_data'' \<noteq> store_simplified ''mem_addr''" by auto
  with track_store f simplify_store_12 simplify_store_21 a show ?thesis by simp
qed

theorem simplify_order_outline_witness:
  "wf_digraph store_graph \<and> mset [st_T1, st_T2] = mset [st_T2, st_T1] \<and>
   map_sum id outline (simplify_in_order [st_T1, st_T2] store_graph) =
     map_sum id outline (simplify_in_order [st_T2, st_T1] store_graph) \<and>
   map_sum id outline (simplify_in_order [st_T2, st_T1] store_graph) =
     Inr ({st_R, st_C, st_M}, {(st_C, st_R), (st_R, st_M)})"
proof -
  have m: "mset [st_T1, st_T2] = mset [st_T2, st_T1]" by simp
  have o: "outline (store_simplified ''mem_addr'') = ({st_R, st_C, st_M}, {(st_C, st_R), (st_R, st_M)})"
    by (auto simp: outline_def store_simplified_def dom_def split: if_splits)
  from simplify_order_outline [OF wf_store_graph m] wf_store_graph m o
  show ?thesis by (simp add: simplify_store_21)
qed

section \<open>The function projector\<close>

lemma project_edge_at:
  "project_edge index e deps f =
     (if owns index f e then Some (add_edge (dd_graph deps f) (fst e) (fst (snd e)) (snd (snd e)))
      else deps f)"
  by (auto simp: project_edge_def owns_def Let_def dd_graph_def split: option.splits)

lemma fold_add_if_owns_none:
  "\<forall>e \<in> set es. \<not> owns index f e \<Longrightarrow> fold (add_if_owns index f) es g = g"
  by (induction es arbitrary: g) (simp_all add: add_if_owns_def)

lemma nodes_add_if_owns: "set (nodes g) \<subseteq> set (nodes (add_if_owns index f e g))"
  by (auto simp: add_if_owns_def add_edge_def add_node_def Let_def)

lemma nodes_fold_add_if_owns:
  "set (nodes g) \<subseteq> set (nodes (fold (add_if_owns index f) es g))"
proof (induction es arbitrary: g)
  case Nil
  then show ?case by simp
next
  case (Cons e es)
  from nodes_add_if_owns [of g index f e] Cons [of "add_if_owns index f e g"]
  show ?case by auto
qed

lemma fold_project_edge_at:
  "fold (project_edge index) es deps f =
     (if \<exists>e \<in> set es. owns index f e then
        Some (fold (add_if_owns index f) es (dd_graph deps f))
      else deps f)"
proof (induction es arbitrary: deps)
  case Nil
  then show ?case by simp
next
  case (Cons e es)
  show ?case
  proof (cases "owns index f e")
    case True
    then have "dd_graph (project_edge index e deps) f = add_if_owns index f e (dd_graph deps f)"
      by (simp add: project_edge_at dd_graph_def add_if_owns_def)
    moreover have "project_edge index e deps f = Some (add_if_owns index f e (dd_graph deps f))"
      using True by (simp add: project_edge_at add_if_owns_def)
    ultimately show ?thesis using True Cons.IH [of "project_edge index e deps"]
      by (auto simp: fold_add_if_owns_none)
  next
    case False
    then have "project_edge index e deps f = deps f" by (simp add: project_edge_at)
    then have "dd_graph (project_edge index e deps) f = dd_graph deps f"
      by (simp add: dd_graph_def)
    moreover have "add_if_owns index f e (dd_graph deps f) = dd_graph deps f"
      using False by (simp add: add_if_owns_def)
    ultimately show ?thesis
      using False Cons.IH [of "project_edge index e deps"]
        \<open>project_edge index e deps f = deps f\<close>
      by simp
  qed
qed

lemma fold_add_if_owns_other:
  "k \<notin> edge_key ` set es \<Longrightarrow> adj (fold (add_if_owns index f) es g) k = adj g k"
  by (induction es arbitrary: g)
     (auto simp: add_if_owns_def add_edge_def add_node_def edge_key_def Let_def)

lemma fold_add_if_owns_edge:
  assumes "distinct (map edge_key es)" and "(u, v, d) \<in> set es" and "owns index f (u, v, d)"
    and "adj g (u, v) = None"
  shows "adj (fold (add_if_owns index f) es g) (u, v) = Some d"
  using assms
proof (induction es arbitrary: g)
  case Nil
  then show ?case by simp
next
  case (Cons e es)
  show ?case
  proof (cases "e = (u, v, d)")
    case True
    have "(u, v) \<notin> edge_key ` set es" using Cons.prems(1) True by (simp add: edge_key_def)
    from fold_add_if_owns_other [OF this]
    have "adj (fold (add_if_owns index f) es (add_if_owns index f e g)) (u, v)
        = adj (add_if_owns index f e g) (u, v)" .
    also have "\<dots> = Some d"
      using True Cons.prems(3,4) by (simp add: add_if_owns_def add_edge_def add_node_def)
    finally show ?thesis by simp
  next
    case False
    with Cons.prems have in_es: "(u, v, d) \<in> set es" by simp
    then have "(u, v) \<in> edge_key ` set es" by (force simp: edge_key_def)
    with Cons.prems(1) have "edge_key e \<noteq> (u, v)" by auto
    then have "adj (add_if_owns index f e g) (u, v) = None"
      using Cons.prems(4)
      by (auto simp: add_if_owns_def add_edge_def add_node_def edge_key_def Let_def)
    with Cons.IH [OF _ in_es Cons.prems(3), of "add_if_owns index f e g"] Cons.prems(1)
    show ?thesis by simp
  qed
qed

lemma fold_add_if_owns_nodes:
  "(u, v, d) \<in> set es \<Longrightarrow> owns index f (u, v, d) \<Longrightarrow>
   u \<in> set (nodes (fold (add_if_owns index f) es g)) \<and>
   v \<in> set (nodes (fold (add_if_owns index f) es g))"
proof (induction es arbitrary: g)
  case Nil
  then show ?case by simp
next
  case (Cons e es)
  note mono = nodes_fold_add_if_owns
  show ?case
  proof (cases "e = (u, v, d)")
    case True
    then have "u \<in> set (nodes (add_if_owns index f e g)) \<and> v \<in> set (nodes (add_if_owns index f e g))"
      using Cons.prems(2) by (auto simp: add_if_owns_def add_edge_def add_node_def)
    with mono [of "add_if_owns index f e g" index f es] show ?thesis by auto
  next
    case False
    with Cons show ?thesis by simp
  qed
qed

lemma out_edges_set:
  "set (out_edges G n) = {(n, v, d) | v d. v \<in> set (nodes G) \<and> adj G (n, v) = Some d}"
  by (auto simp: out_edges_def map_filter_def image_iff) force

lemma edges_iter_set:
  "wf_digraph G \<Longrightarrow> (u, v, d) \<in> set (edges_iter G) \<longleftrightarrow> adj G (u, v) = Some d"
  unfolding edges_iter_def wf_digraph_def
  by (auto simp: out_edges_set)

lemma out_edges_keys:
  "distinct (nodes G) \<Longrightarrow> distinct (map edge_key (out_edges G n)) \<and>
   edge_key ` set (out_edges G n) \<subseteq> {n} \<times> UNIV"
  by (auto simp: out_edges_def map_filter_def edge_key_def distinct_map inj_on_def comp_def)

lemma edges_iter_distinct_aux:
  "distinct (nodes G) \<Longrightarrow> distinct ns \<Longrightarrow>
   distinct (map edge_key (concat (map (out_edges G) ns))) \<and>
   edge_key ` set (concat (map (out_edges G) ns)) \<subseteq> set ns \<times> UNIV"
proof (induction ns)
  case Nil
  then show ?case by simp
next
  case (Cons n ns)
  from out_edges_keys [OF Cons.prems(1), of n] Cons show ?case
    by (auto simp: image_Un) blast+
qed

lemma edges_iter_distinct: "wf_digraph G \<Longrightarrow> distinct (map edge_key (edges_iter G))"
  using edges_iter_distinct_aux [of G "nodes G"]
  by (simp add: edges_iter_def wf_digraph_def)

lemma fold_blocks_at:
  "fold (\<lambda>block m'. m'(block \<mapsto> fn)) blocks m b = (if b \<in> set blocks then Some fn else m b)"
  by (induction blocks arbitrary: m) auto

lemma fold_funcs_unique:
  assumes "\<forall>fb \<in> set funcs. b \<in> set (snd fb) \<longrightarrow> fst fb = f"
  shows "fold (\<lambda>func m. fold (\<lambda>block m'. m'(block \<mapsto> fst func)) (snd func) m) funcs m b =
         (if \<exists>fb \<in> set funcs. b \<in> set (snd fb) then Some f else m b)"
  using assms
proof (induction funcs arbitrary: m)
  case Nil
  then show ?case by simp
next
  case (Cons fb funcs)
  let ?m1 = "fold (\<lambda>block m'. m'(block \<mapsto> fst fb)) (snd fb) m"
  have 1: "?m1 b = (if b \<in> set (snd fb) then Some (fst fb) else m b)"
    by (rule fold_blocks_at)
  have 2: "fold (\<lambda>func m. fold (\<lambda>block m'. m'(block \<mapsto> fst func)) (snd func) m) funcs ?m1 b =
         (if \<exists>fb \<in> set funcs. b \<in> set (snd fb) then Some f else ?m1 b)"
    using Cons.prems by (intro Cons.IH) simp
  have 3: "b \<in> set (snd fb) \<Longrightarrow> fst fb = f" using Cons.prems by simp
  have "fold (\<lambda>func m. fold (\<lambda>block m'. m'(block \<mapsto> fst func)) (snd func) m) (fb # funcs) m b
      = fold (\<lambda>func m. fold (\<lambda>block m'. m'(block \<mapsto> fst func)) (snd func) m) funcs ?m1 b"
    by simp
  also have "\<dots> = (if \<exists>fb' \<in> set (fb # funcs). b \<in> set (snd fb') then Some f else m b)"
    unfolding 2 1 using 3 by auto
  finally show ?case .
qed

lemma simrun_addr_to_func_unique:
  assumes "(f, blocks) \<in> set funcs" and "b \<in> set blocks"
    and "\<forall>fb \<in> set funcs. b \<in> set (snd fb) \<longrightarrow> fst fb = f"
  shows "simrun_addr_to_func funcs b = Some f"
proof -
  have "\<exists>fb \<in> set funcs. b \<in> set (snd fb)" using assms(1,2) by force
  then show ?thesis
    unfolding simrun_addr_to_func_def fold_funcs_unique [OF assms(3)] by simp
qed

lemma function_dependency_graph_fresh:
  assumes "function_data_dependencies self = None"
  shows "fst (function_dependency_graph conf self f) =
           fold (project_edge (function_index conf)) (edges_iter (stmt_graph self)) Map.empty f"
  using assms
  by (simp add: function_dependency_graph_def build_function_dependency_graphs_def
      function_index_def)

lemma projected_edge:
  assumes wf: "wf_digraph (stmt_graph self)" and fresh: "function_data_dependencies self = None"
    and e: "adj (stmt_graph self) (src, dst) = Some data"
    and o: "func_of (function_index conf) src = Some f \<or> func_of (function_index conf) dst = Some f"
  shows "\<exists>g. fst (function_dependency_graph conf self f) = Some g \<and> has_edge g src dst \<and>
             adj g (src, dst) = Some data"
proof -
  let ?es = "edges_iter (stmt_graph self)"
  let ?g = "fold (add_if_owns (function_index conf) f) ?es (dd_graph Map.empty f)"
  have m: "(src, dst, data) \<in> set ?es" using e by (simp add: edges_iter_set [OF wf])
  have ow: "owns (function_index conf) f (src, dst, data)" using o by (simp add: owns_def)
  then have "\<exists>e \<in> set ?es. owns (function_index conf) f e" using m by blast
  then have 1: "fst (function_dependency_graph conf self f) = Some ?g"
    by (simp add: function_dependency_graph_fresh [OF fresh] fold_project_edge_at)
  have 2: "adj ?g (src, dst) = Some data"
    by (rule fold_add_if_owns_edge [OF edges_iter_distinct [OF wf] m ow])
       (simp add: dd_graph_def DiGraph_def)
  have 3: "src \<in> set (nodes ?g)" using fold_add_if_owns_nodes [OF m ow] by blast
  from 1 2 3 show ?thesis by (auto simp: has_edge_def)
qed

text \<open>
  C8, as amended: the owner of a block is the function that the block-to-function index
  gives it (a block that one function alone lists is given to that function; of several
  functions that list a block, the index keeps the last). Every edge of the statement
  graph with an end point in a block of \<open>f\<close> is in the graph of \<open>f\<close>, with its labels; an
  edge between blocks of two functions is in both graphs; and a function that owns no
  end point of any edge has no graph: the lookup returns \<open>None\<close>.
\<close>

theorem function_projection:
  assumes "wf_digraph (stmt_graph self)" and "function_data_dependencies self = None"
  shows
   "(adj (stmt_graph self) (src, dst) = Some data \<and>
     (func_of (function_index conf) src = Some f \<or> func_of (function_index conf) dst = Some f) \<longrightarrow>
       (\<exists>g. fst (function_dependency_graph conf self f) = Some g \<and> has_edge g src dst \<and>
            adj g (src, dst) = Some data)) \<and>
    (adj (stmt_graph self) (src, dst) = Some data \<and>
     func_of (function_index conf) src = Some f1 \<and> func_of (function_index conf) dst = Some f2 \<longrightarrow>
       (\<exists>g1 g2. fst (function_dependency_graph conf self f1) = Some g1 \<and>
                 fst (function_dependency_graph conf self f2) = Some g2 \<and>
                 adj g1 (src, dst) = Some data \<and> adj g2 (src, dst) = Some data)) \<and>
    ((\<forall>u v. adj (stmt_graph self) (u, v) \<noteq> None \<longrightarrow>
        func_of (function_index conf) u \<noteq> Some f \<and> func_of (function_index conf) v \<noteq> Some f) \<longrightarrow>
       fst (function_dependency_graph conf self f) = None) \<and>
    ((f, blocks) \<in> set (cfg_functions (the_cfg conf)) \<and> b \<in> set blocks \<and>
     (\<forall>fb \<in> set (cfg_functions (the_cfg conf)). b \<in> set (snd fb) \<longrightarrow> fst fb = f) \<longrightarrow>
       function_index conf b = Some f)"
proof (intro conjI impI)
  assume "adj (stmt_graph self) (src, dst) = Some data \<and>
     (func_of (function_index conf) src = Some f \<or> func_of (function_index conf) dst = Some f)"
  then show "\<exists>g. fst (function_dependency_graph conf self f) = Some g \<and> has_edge g src dst \<and>
            adj g (src, dst) = Some data"
    using projected_edge [OF assms] by blast
next
  assume h: "adj (stmt_graph self) (src, dst) = Some data \<and>
     func_of (function_index conf) src = Some f1 \<and> func_of (function_index conf) dst = Some f2"
  from h projected_edge [OF assms, of src dst data conf f1]
  obtain g1 where "fst (function_dependency_graph conf self f1) = Some g1"
    "adj g1 (src, dst) = Some data" by blast
  moreover from h projected_edge [OF assms, of src dst data conf f2]
  obtain g2 where "fst (function_dependency_graph conf self f2) = Some g2"
    "adj g2 (src, dst) = Some data" by blast
  ultimately show "\<exists>g1 g2. fst (function_dependency_graph conf self f1) = Some g1 \<and>
                 fst (function_dependency_graph conf self f2) = Some g2 \<and>
                 adj g1 (src, dst) = Some data \<and> adj g2 (src, dst) = Some data"
    by blast
next
  assume h: "\<forall>u v. adj (stmt_graph self) (u, v) \<noteq> None \<longrightarrow>
        func_of (function_index conf) u \<noteq> Some f \<and> func_of (function_index conf) v \<noteq> Some f"
  have "\<not> (\<exists>e \<in> set (edges_iter (stmt_graph self)). owns (function_index conf) f e)"
  proof
    assume "\<exists>e \<in> set (edges_iter (stmt_graph self)). owns (function_index conf) f e"
    then obtain u v d where "(u, v, d) \<in> set (edges_iter (stmt_graph self))"
      "owns (function_index conf) f (u, v, d)" by auto
    with h edges_iter_set [OF assms(1)] show False by (auto simp: owns_def)
  qed
  then show "fst (function_dependency_graph conf self f) = None"
    by (simp add: function_dependency_graph_fresh [OF assms(2)] fold_project_edge_at)
next
  assume "(f, blocks) \<in> set (cfg_functions (the_cfg conf)) \<and> b \<in> set blocks \<and>
     (\<forall>fb \<in> set (cfg_functions (the_cfg conf)). b \<in> set (snd fb) \<longrightarrow> fst fb = f)"
  then show "function_index conf b = Some f"
    unfolding function_index_def by (intro simrun_addr_to_func_unique [of f blocks]) simp_all
qed

lemmas projection_defs = functions_conf_def two_function_conf_def shared_block_conf_def
  cross_ddg_def one_edge_ddg_def plain_conf_def empty_ddg_def DiGraph_def
  stmt_graph_add_edge_def data_graph_add_edge_def add_edge_def add_node_def has_edge_def
  loc_a_def loc_b_def loc_c_def rax_def

text \<open>
  C8 as stated fails for a block that two functions list: the edge is in the graph of
  the function listed last only, and the lookup of the other function finds nothing.
\<close>

theorem function_projection_shared_block:
  "(''f'', [0x400000]) \<in> set (cfg_functions (the_cfg shared_block_conf)) \<and>
   simrun_addr loc_a = Some 0x400000 \<and>
   adj (stmt_graph one_edge_ddg) (loc_a, loc_b) = Some reg_labels \<and>
   function_data_dependencies one_edge_ddg = None \<and>
   fst (function_dependency_graph shared_block_conf one_edge_ddg ''f'') = None"
  by (simp add: function_dependency_graph_def build_function_dependency_graphs_def
      project_edge_def simrun_addr_to_func_def func_of_def dd_graph_def
      edges_iter_def out_edges_def map_filter_def projection_defs Let_def)

lemma wf_cross_ddg: "wf_digraph (stmt_graph cross_ddg)"
  by (auto simp: wf_digraph_def projection_defs split: if_splits)

theorem function_projection_witness:
  "wf_digraph (stmt_graph cross_ddg) \<and> function_data_dependencies cross_ddg = None \<and>
   adj (stmt_graph cross_ddg) (loc_a, loc_c) = Some reg_labels \<and>
   func_of (function_index two_function_conf) loc_a = Some ''caller'' \<and>
   func_of (function_index two_function_conf) loc_c = Some ''callee'' \<and>
   (\<exists>g. fst (function_dependency_graph two_function_conf cross_ddg ''caller'') = Some g \<and>
        has_edge g loc_a loc_c \<and> adj g (loc_a, loc_c) = Some reg_labels) \<and>
   (\<exists>g1 g2. fst (function_dependency_graph two_function_conf cross_ddg ''caller'') = Some g1 \<and>
        fst (function_dependency_graph two_function_conf cross_ddg ''callee'') = Some g2 \<and>
        adj g1 (loc_a, loc_c) = Some reg_labels \<and> adj g2 (loc_a, loc_c) = Some reg_labels) \<and>
   fst (function_dependency_graph two_function_conf cross_ddg ''other'') = None \<and>
   (''callee'', [0x400010]) \<in> set (cfg_functions (the_cfg two_function_conf)) \<and>
   function_index two_function_conf 0x400010 = Some ''callee''"
proof -
  have fresh: "function_data_dependencies cross_ddg = None"
    by (simp add: projection_defs)
  have e: "adj (stmt_graph cross_ddg) (loc_a, loc_c) = Some reg_labels"
    by (simp add: projection_defs)
  have i: "func_of (function_index two_function_conf) loc_a = Some ''caller''"
    "func_of (function_index two_function_conf) loc_c = Some ''callee''"
    by (simp_all add: func_of_def function_index_def simrun_addr_to_func_def projection_defs)
  have only: "adj (stmt_graph cross_ddg) (u, v) \<noteq> None \<Longrightarrow> u = loc_a \<and> v = loc_c" for u v
    by (simp add: projection_defs split: if_splits)
  have o: "\<forall>u v. adj (stmt_graph cross_ddg) (u, v) \<noteq> None \<longrightarrow>
        func_of (function_index two_function_conf) u \<noteq> Some ''other'' \<and>
        func_of (function_index two_function_conf) v \<noteq> Some ''other''"
    using only i by fastforce
  have m: "(''callee'', [0x400010]) \<in> set (cfg_functions (the_cfg two_function_conf))"
    "(0x400010 :: int) \<in> set [0x400010]"
    "\<forall>fb \<in> set (cfg_functions (the_cfg two_function_conf)).
        (0x400010 :: int) \<in> set (snd fb) \<longrightarrow> fst fb = ''callee''"
    by (simp_all add: projection_defs)
  note t = function_projection [OF wf_cross_ddg fresh, where conf = two_function_conf
      and src = loc_a and dst = loc_c and data = reg_labels and ?f1.0 = "''caller''"
      and ?f2.0 = "''callee''"]
  have 1: "\<exists>g. fst (function_dependency_graph two_function_conf cross_ddg ''caller'') = Some g \<and>
        has_edge g loc_a loc_c \<and> adj g (loc_a, loc_c) = Some reg_labels"
    using t [where f = "''caller''"] e i by blast
  have 2: "\<exists>g1 g2. fst (function_dependency_graph two_function_conf cross_ddg ''caller'') = Some g1 \<and>
        fst (function_dependency_graph two_function_conf cross_ddg ''callee'') = Some g2 \<and>
        adj g1 (loc_a, loc_c) = Some reg_labels \<and> adj g2 (loc_a, loc_c) = Some reg_labels"
    using t [where f = "''caller''"] e i by blast
  have 3: "fst (function_dependency_graph two_function_conf cross_ddg ''other'') = None"
    using t [where f = "''other''"] o by blast
  have 4: "function_index two_function_conf 0x400010 = Some ''callee''"
    using t [where f = "''callee''" and blocks = "[0x400010]" and b = "0x400010"] m by blast
  from wf_cross_ddg fresh e i 1 2 3 4 m(1) show ?thesis by blast
qed


section \<open>The scheduler: merging definitions into the successor\<close>

text \<open>
  The set objects of the store only grow while the analysis runs, and the references held
  in the per-node mappings stay valid. These two facts carry the statements about
  \<^verbatim>\<open>_construct\<close> below.
\<close>

lemma grows_refl [simp]: "grows h h"
  by (simp add: grows_def)


lemma grows_append [simp]: "grows h (h @ ext)"
  by (simp add: grows_def nth_append)














lemma ddg_inv_data_graph_add_edge [simp]:
  "ddg_inv D h0 (data_graph_add_edge self u v l) = ddg_inv D h0 self"
  by (simp add: ddg_inv_def)

lemma ddg_inv_data_graph_add_node [simp]:
  "ddg_inv D h0 (data_graph_add_node self u) = ddg_inv D h0 self"
  by (simp add: ddg_inv_def)

lemma refs_ok_heap_eq: "heap self' = heap self \<Longrightarrow> refs_ok self' defs = refs_ok self defs"
  by (simp add: refs_ok_def)

lemma refs_ok_builders [simp]:
  "refs_ok (stmt_graph_add_edge s a b l) defs = refs_ok s defs"
  "refs_ok (data_graph_add_edge s pa pb l) defs = refs_ok s defs"
  "refs_ok (data_graph_add_node s pa) defs = refs_ok s defs"
  by (simp_all add: refs_ok_def)







lemma heap_add_def_edges [simp]: "heap (add_def_edges cur prevdefs self) = heap self"
  unfolding add_def_edges_def
  by (rule fold_inv [where P = "\<lambda>s. heap s = heap self"]) auto














lemma tracker_inv_new_statement [simp]:
  "tracker_inv D h0 (new_statement a st) = tracker_inv D h0 st"
  by (simp add: tracker_inv_def)









lemma worklist_irrelevant [simp]:
  "sched_ok (s\<lparr>worklist := w, worklist_set := ws\<rparr>) = sched_ok s"
  "node_located (s\<lparr>worklist := w, worklist_set := ws\<rparr>) n var = node_located s n var"
  by (simp_all add: sched_ok_def node_located_def defs_of_def)


lemma edges_into_UNIV [simp]: "edges_into UNIV G"
  by (simp add: edges_into_def)





















text \<open>
  C9 fails on the join example. Before block 3 is processed the entry of block 1 holds the
  write of block 0 for \<^verbatim>\<open>rax\<close>, and block 3 is the only job left; the state of block 3 has
  block 2 as its successor, so the merge is into the entry of block 2. After that
  iteration the entry of block 1 holds the write of block 3 as well: the entries of
  blocks 1 and 2 refer to one set object (the tracker's copy of the mapping is shallow,
  and the merge stores the tracker's set itself for a variable the successor does not
  have), and the merge into block 2 adds to it.
\<close>

theorem propagation_aliases_sets:
  "map_sum id (\<lambda>s. (worklist s, node_reaching s 1 rax))
     (construct_steps 3 alias_conf (initial_scheduler alias_conf)) =
     Inr ([(3, 0)], Some [loc_at (block_addr 0)]) \<and>
   corresponding_successors alias_cfg 3 (jump_state (block_addr 2) [reg_write_at (block_addr 3)]) = [2] \<and>
   map_sum id (\<lambda>s. (node_reaching s 1 rax, node_reaching s 2 rax))
     (construct_steps 4 alias_conf (initial_scheduler alias_conf)) =
     Inr (Some [loc_at (block_addr 0), loc_at (block_addr 3)],
          Some [loc_at (block_addr 0), loc_at (block_addr 3)])"
  by code_simp

end
